theory Spec2Isabelle
  imports Main "HOL-Library.AList" "HOL-Library.Char_ord" "HOL-Library.List_Lexorder"
begin

section \<open>Go library functions the controller relies on\<close>

text \<open>
  The entry state engine of the DNS controller (package \<open>provider\<close>) and the plain
  record sets of package \<open>direct\<close> are embedded below. This first section models the
  few functions of the Go standard library they call: 64-bit wrap-around, \<open>time\<close>,
  \<open>strconv.ParseInt\<close>, \<open>strings.Trim\<close>, \<open>strings.Split\<close>, \<open>strings.HasPrefix\<close> and
  the \<open>%d\<close> verb of \<open>fmt.Sprintf\<close>.
\<close>

subsection \<open>Machine integers\<close>

text \<open>A signed integer of \<open>w\<close> bits, as an \<open>int\<close> with the wrap-around written out.\<close>

definition wrap :: "nat \<Rightarrow> int \<Rightarrow> int" where
  "wrap w x = (x + 2 ^ (w - 1)) mod 2 ^ w - 2 ^ (w - 1)"

definition wrap64 :: "int \<Rightarrow> int" where
  "wrap64 x = wrap 64 x"

text \<open>Go's \<open>int\<close> has 32 or 64 bits, depending on the platform the controller is built for.\<close>

datatype arch = Arch32 | Arch64

fun intSize :: "arch \<Rightarrow> nat" where
  "intSize Arch32 = 32"
| "intSize Arch64 = 64"

definition go_int :: "arch \<Rightarrow> int \<Rightarrow> int" where
  "go_int a x = wrap (intSize a) x"

definition go_int64 :: "int \<Rightarrow> int" where
  "go_int64 x = wrap64 x"

subsection \<open>Package time\<close>

text \<open>
  A \<open>time.Time\<close> without monotonic reading is a count of seconds since January 1 of
  year 1 (an \<open>int64\<close>) and a count of nanoseconds below one second; both are kept in one
  number, the nanoseconds since that instant. The zero time is 0, and \<open>Before\<close>, \<open>After\<close>
  and \<open>Equal\<close> compare the numbers. \<open>time.Unix\<close> adds the offset of the Unix epoch to
  its seconds in \<open>int64\<close> arithmetic. A \<open>time.Duration\<close> is an \<open>int64\<close> of nanoseconds,
  and \<open>Sub\<close> saturates.
\<close>

type_synonym Time = int
type_synonym Duration = int

definition unixToInternal :: int where
  "unixToInternal = 62135596800"

definition Second :: Duration where
  "Second = 1000000000"

definition time_Unix :: "int \<Rightarrow> Time" where
  "time_Unix sec = wrap64 (sec + unixToInternal) * Second"

definition time_IsZero :: "Time \<Rightarrow> bool" where
  "time_IsZero t = (t = 0)"

definition time_Before :: "Time \<Rightarrow> Time \<Rightarrow> bool" where
  "time_Before t u = (t < u)"

definition time_After :: "Time \<Rightarrow> Time \<Rightarrow> bool" where
  "time_After t u = (u < t)"

definition time_Equal :: "Time \<Rightarrow> Time \<Rightarrow> bool" where
  "time_Equal t u = (t = u)"

definition maxDuration :: Duration where
  "maxDuration = 2 ^ 63 - 1"

definition minDuration :: Duration where
  "minDuration = - (2 ^ 63)"

definition time_Sub :: "Time \<Rightarrow> Time \<Rightarrow> Duration" where
  "time_Sub t u =
     (let d = t - u in
      if maxDuration < d then maxDuration
      else if d < minDuration then minDuration
      else d)"

text \<open>\<open>time.Duration(n) * time.Second\<close> and \<open>ttl * 2\<close>: products of \<open>int64\<close> values.\<close>

definition mul64 :: "int \<Rightarrow> int \<Rightarrow> int" where
  "mul64 a b = wrap64 (a * b)"

subsection \<open>Package strconv\<close>

datatype NumError = ErrSyntax | ErrRange

definition digitval :: "char \<Rightarrow> nat option" where
  "digitval c =
     (let n = (of_char c :: nat) in if 48 \<le> n \<and> n \<le> 57 then Some (n - 48) else None)"

definition maxUint64 :: nat where
  "maxUint64 = 2 ^ 64 - 1"

text \<open>
  The digit loop of \<open>strconv.ParseUint(s, 10, 64)\<close>: a character that is no decimal
  digit is a syntax error; the range is checked before and after each digit is added,
  so an overflow is reported before a later bad character is seen.
\<close>

fun ParseUint_loop :: "string \<Rightarrow> nat \<Rightarrow> NumError + nat" where
  "ParseUint_loop [] n = Inr n"
| "ParseUint_loop (c # cs) n =
     (case digitval c of
        None \<Rightarrow> Inl ErrSyntax
      | Some d \<Rightarrow>
          if maxUint64 div 10 + 1 \<le> n then Inl ErrRange
          else if maxUint64 < n * 10 + d then Inl ErrRange
          else ParseUint_loop cs (n * 10 + d))"

definition ParseUint :: "string \<Rightarrow> NumError + nat" where
  "ParseUint s = (if s = [] then Inl ErrSyntax else ParseUint_loop s 0)"

text \<open>
  \<open>strconv.ParseInt(s, 10, 64)\<close> returns a value together with the error: 0 on a
  syntax error, the nearest bound on a range error.
\<close>

definition ParseInt :: "string \<Rightarrow> int \<times> NumError option" where
  "ParseInt s0 =
     (if s0 = [] then (0, Some ErrSyntax)
      else
        let neg = (hd s0 = CHR ''-'');
            s = (if hd s0 = CHR ''+'' \<or> hd s0 = CHR ''-'' then tl s0 else s0)
        in case ParseUint s of
             Inl ErrSyntax \<Rightarrow> (0, Some ErrSyntax)
           | Inl ErrRange \<Rightarrow> (if neg then (- (2 ^ 63), Some ErrRange) else (2 ^ 63 - 1, Some ErrRange))
           | Inr un \<Rightarrow>
               if \<not> neg \<and> 2 ^ 63 \<le> un then (2 ^ 63 - 1, Some ErrRange)
               else if neg \<and> 2 ^ 63 < un then (- (2 ^ 63), Some ErrRange)
               else (if neg then - int un else int un, None))"

subsection \<open>Package strings and fmt\<close>

definition HasPrefix :: "string \<Rightarrow> string \<Rightarrow> bool" where
  "HasPrefix s p = (length p \<le> length s \<and> take (length p) s = p)"

text \<open>\<open>strings.Trim(s, cutset)\<close> for a cutset of one character.\<close>

definition Trim :: "string \<Rightarrow> char \<Rightarrow> string" where
  "Trim s c = rev (dropWhile (\<lambda>x. x = c) (rev (dropWhile (\<lambda>x. x = c) s)))"

text \<open>\<open>strings.Split(s, sep)\<close> for a separator of one character; the result is never empty.\<close>

fun Split :: "string \<Rightarrow> char \<Rightarrow> string list" where
  "Split [] c = [[]]"
| "Split (x # xs) c =
     (if x = c then [] # Split xs c
      else case Split xs c of
             [] \<Rightarrow> [[x]]
           | f # fs \<Rightarrow> (x # f) # fs)"

text \<open>The verb \<open>%d\<close> on a count that is never negative.\<close>

fun itoa :: "nat \<Rightarrow> string" where
  "itoa n =
     (if n < 10 then [''0123456789'' ! n]
      else itoa (n div 10) @ [''0123456789'' ! (n mod 10)])"

declare itoa.simps [simp del]

section \<open>Plain record sets (package direct)\<close>

text \<open>
  \<open>dns.Record\<close> and \<open>dns.RecordSet\<close> are declared in package \<open>dns\<close>, which is not among
  the sources; their fields are read off \<open>FromPlainRecordSet\<close> and \<open>ToPlainRecordset\<close>,
  which use \<open>Value\<close>, \<open>Type\<close>, \<open>TTL\<close> (an \<open>int64\<close>) and \<open>Records\<close>.
\<close>

datatype dns_Record = Record (Value: string)

record dns_RecordSet =
  rs_Type :: string
  rs_TTL :: int
  rs_Records :: "dns_Record list"

text \<open>
  Modelled from the spec: \<open>dns.NewRecordSet\<close> is missing from the sources. It is taken
  as the constructor of a record set from its type, TTL and records ("full
  record-sets" of a type, a TTL and target values).
\<close>

definition NewRecordSet :: "string \<Rightarrow> int \<Rightarrow> dns_Record list \<Rightarrow> dns_RecordSet" where
  "NewRecordSet rtype ttl records = \<lparr>rs_Type = rtype, rs_TTL = ttl, rs_Records = records\<rparr>"

text \<open>
  The interface \<open>Record\<close> is implemented by \<open>plainRecord\<close> only; a record is the tuple
  of what its getters return (\<open>GetId\<close> is always empty). \<open>TTL\<close> is a Go \<open>int\<close>.
\<close>

record plainRecord =
  pr_DNSName :: string
  pr_Type :: string
  pr_TTL :: int
  pr_Value :: string

type_synonym RecordSet = "plainRecord list"

definition GetId :: "plainRecord \<Rightarrow> string" where
  "GetId r = []"

definition FromPlainRecordSet :: "arch \<Rightarrow> string \<Rightarrow> dns_RecordSet \<Rightarrow> RecordSet" where
  "FromPlainRecordSet a dnsName rs =
     map (\<lambda>r. \<lparr>pr_DNSName = dnsName, pr_Type = rs_Type rs,
                pr_TTL = go_int a (rs_TTL rs), pr_Value = Value r\<rparr>)
         (rs_Records rs)"

text \<open>The second component is \<open>None\<close> where the Go function returns a nil record set.\<close>

definition ToPlainRecordset :: "RecordSet \<Rightarrow> string \<times> dns_RecordSet option" where
  "ToPlainRecordset rawrs =
     (case rawrs of
        [] \<Rightarrow> ([], None)
      | r0 # _ \<Rightarrow>
          (pr_DNSName r0,
           Some (NewRecordSet (pr_Type r0) (go_int64 (pr_TTL r0))
                   (map (\<lambda>r. Record (pr_Value r)) rawrs))))"

definition newAttrKeyPrefix :: "string \<Rightarrow> string" where
  "newAttrKeyPrefix name = [CHR 0x22] @ name @ ''=''"

text \<open>
  \<open>GetAttr\<close> returns the text between the prefix and the last character of the first
  value that starts with the prefix. The slice expression
  \<open>value[len(prefix) : len(value)-1]\<close> panics when the value is the prefix itself;
  that outcome is \<open>None\<close>.
\<close>

fun GetAttr :: "RecordSet \<Rightarrow> string \<Rightarrow> string option" where
  "GetAttr [] name = Some []"
| "GetAttr (r # rs) name =
     (let prefix = newAttrKeyPrefix name; v = pr_Value r in
      if HasPrefix v prefix then
        (if length v - 1 < length prefix then None
         else Some (take (length v - 1 - length prefix) (drop (length prefix) v)))
      else GetAttr rs name)"

section \<open>Objects, entries and the controller's surroundings\<close>

text \<open>
  The API types of the controller (\<open>DNSEntry\<close>, \<open>DNSLock\<close> and their status), the
  types \<open>Entry\<close>, \<open>EntryVersion\<close> and \<open>EntryPremise\<close>, package \<open>reconcile\<close> and the
  provider handlers are not among the sources. The records below hold the fields and
  getters that the embedded functions read and write. Status states are kept
  symbolic (\<open>STATE_NONE\<close> is the empty state of a fresh object), and a status message
  is kept as its format and arguments.
\<close>

datatype Kind = DNSEntryKind | DNSLockKind

datatype StatusState =
  STATE_NONE | STATE_PENDING | STATE_ERROR | STATE_INVALID | STATE_STALE | STATE_READY
  | STATE_DELETING

datatype message =
    AlreadyBusyForEntry string string
  | ActivatingFor string
  | MismatchingLockIds string string
  | InvalidTimestampInRecord string
  | RecordIsSet
  | RecordCannotBeLookedUp
  | OtherMessage string

datatype error = ApiError string | LookupError string | NoMatchingProvider string

text \<open>Outcomes of a run that does not return: the two run-time panics of the lock functions.\<close>

datatype panic = NilProvider | SliceBoundsOutOfRange

record ObjStatus =
  st_State :: StatusState
  st_Message :: "message option"
  st_Zone :: "string option"
  st_Provider :: "string option"
  st_ProviderType :: "string option"
  st_Timestamp :: "Time option"
  st_FirstFailedDNSLookup :: "Time option"
  st_Attributes :: "(string \<times> string) list"

text \<open>
  An object of the control plane, as far as the state engine looks at it: metadata
  (name, creation timestamp, deletion mark, the controller's finalizer), the
  specification of an entry or lock, and the status.
\<close>

record Object =
  ob_ObjectName :: string
  ob_Kind :: Kind
  ob_CreationTimestamp :: Time
  ob_IsDeleting :: bool
  ob_HasFinalizer :: bool
  ob_DNSName :: string
  ob_OwnerId :: string
  ob_Text :: "string list"
  ob_TTL :: int
  ob_LockId :: "string option"
  ob_Timestamp :: Time
  ob_Status :: ObjStatus

record EntryVersion =
  ev_object :: Object
  ev_dnsname :: string
  ev_status :: ObjStatus
  ev_valid :: bool
  ev_ttl :: int
  ev_interval :: int
  ev_obsolete :: bool

record Entry =
  en_version :: EntryVersion
  en_duplicate :: bool
  en_modified :: bool
  en_activezone :: string
  en_updateRequired :: bool

record zoneinfo =
  z_Id :: string
  z_Domain :: string
  z_ProviderType :: string

record Provider =
  pv_ObjectName :: string
  pv_TypeCode :: string
  pv_IsValid :: bool

record EntryPremise =
  pm_ptypes :: "string list"
  pm_ptype :: string
  pm_provider :: "Provider option"
  pm_fallback :: "Provider option"
  pm_zoneid :: string
  pm_zonedomain :: string

text \<open>The getters of an entry: each reads through the embedded entry version.\<close>

definition StringValue :: "string option \<Rightarrow> string" where
  "StringValue p = (case p of None \<Rightarrow> [] | Some x \<Rightarrow> x)"

definition Object_of :: "Entry \<Rightarrow> Object" where
  "Object_of e = ev_object (en_version e)"

definition ObjectName :: "Entry \<Rightarrow> string" where
  "ObjectName e = ob_ObjectName (Object_of e)"

definition DNSName :: "Entry \<Rightarrow> string" where
  "DNSName e = ev_dnsname (en_version e)"

definition EntryKind :: "Entry \<Rightarrow> Kind" where
  "EntryKind e = ob_Kind (Object_of e)"

definition ZoneId :: "Entry \<Rightarrow> string" where
  "ZoneId e = StringValue (st_Zone (ev_status (en_version e)))"

definition ClusterKey :: "Entry \<Rightarrow> Kind \<times> string" where
  "ClusterKey e = (EntryKind e, ObjectName e)"

subsection \<open>Package reconcile\<close>

record Status =
  Completed :: bool
  Error :: "error option"
  Interval :: Duration

definition Succeeded :: Status where
  "Succeeded = \<lparr>Completed = True, Error = None, Interval = - 1\<rparr>"

definition Delay :: "error \<Rightarrow> Status" where
  "Delay err = \<lparr>Completed = True, Error = Some err, Interval = - 1\<rparr>"

definition DelayOnError :: "error option \<Rightarrow> Status" where
  "DelayOnError err = (case err of None \<Rightarrow> Succeeded | Some e \<Rightarrow> Delay e)"

definition Repeat :: Status where
  "Repeat = \<lparr>Completed = False, Error = None, Interval = - 1\<rparr>"

definition IsSucceeded :: "Status \<Rightarrow> bool" where
  "IsSucceeded st = (Completed st \<and> Error st = None)"

definition RescheduleAfter :: "Status \<Rightarrow> Duration \<Rightarrow> Status" where
  "RescheduleAfter st d = (if Interval st < 0 \<or> d < Interval st then st\<lparr>Interval := d\<rparr> else st)"

subsection \<open>Calls that leave the process\<close>

text \<open>
  Every call to the control plane, to a provider handler, to the resolver or to a
  work queue is recorded in the order it is issued. What such a call returns is not
  decided by the controller: the record \<open>env\<close> gives the outcome of each call from its
  arguments, an error included, and the current time.
\<close>

datatype call =
    Call_GetRecordSet "zoneinfo option" string string
  | Call_CreateOrUpdateRecordSet "zoneinfo option" RecordSet
  | Call_DeleteRecordSet "zoneinfo option" RecordSet
  | Call_UpdateStandardObjectStatus string StatusState message
  | Call_UpdateStatus string StatusState message
  | Call_ModifyStatus string ObjStatus
  | Call_SetFinalizer string
  | Call_RemoveFinalizer string
  | Call_LookupTXT string
  | Call_Enqueue string
  | Call_EnqueueKey "Kind \<times> string"
  | Call_triggerKey "Kind \<times> string"
  | Call_triggerHostedZone string

record env =
  GetRecordSet_result :: "zoneinfo option \<Rightarrow> string \<Rightarrow> string \<Rightarrow> error + RecordSet option"
  CreateOrUpdateRecordSet_result :: "zoneinfo option \<Rightarrow> RecordSet \<Rightarrow> error option"
  DeleteRecordSet_result :: "zoneinfo option \<Rightarrow> RecordSet \<Rightarrow> error option"
  UpdateStandardObjectStatus_result :: "string \<Rightarrow> StatusState \<Rightarrow> message \<Rightarrow> error option"
  UpdateStatus_result :: "string \<Rightarrow> StatusState \<Rightarrow> message \<Rightarrow> error option"
  ModifyStatus_result :: "string \<Rightarrow> ObjStatus \<Rightarrow> error option"
  SetFinalizer_result :: "string \<Rightarrow> error option"
  RemoveFinalizer_result :: "string \<Rightarrow> error option"
  LookupTXT_result :: "string \<Rightarrow> error + string list"
  time_Now :: Time

text \<open>
  Constants and helpers that are not among the sources, and of which the spec says
  nothing more, are parameters: the attribute names of a lock's TXT record, the record
  type \<open>RS_TXT\<close>, the value \<open>dnsutils.NewText(s, ttl).AsRecord()\<close> gives to a text, the
  flags that \<open>NewEntry\<close> gives a fresh entry and that \<open>Entry.Update\<close> gives an entry
  updated in place, and \<open>NewEntryVersion\<close> and \<open>EntryVersion.Setup\<close>, which build and
  validate the entry version and return the status of the reconcile so far.
\<close>

record deps =
  ATTR_LOCKID :: string
  ATTR_TIMESTAMP :: string
  RS_TXT :: string
  AsRecordValue :: "string \<Rightarrow> string"
  newEntryFlags :: "EntryVersion \<Rightarrow> Entry"
  updateFlags :: "Entry \<Rightarrow> EntryVersion \<Rightarrow> Entry"
  NewEntryVersion :: "Object \<Rightarrow> Entry option \<Rightarrow> EntryVersion"
  Setup :: "EntryVersion \<Rightarrow> EntryPremise \<Rightarrow> string \<Rightarrow> error option \<Rightarrow> Entry option
              \<Rightarrow> EntryVersion \<times> Status"

section \<open>The lock subsystem\<close>

subsection \<open>Refreshing the lock states: UpdateLockStates\<close>

text \<open>
  The body of the loop over the records of a successful lookup. The state of the loop
  is the counter \<open>unnamed\<close>, the timestamp \<open>ts\<close> and the attributes \<open>attrs\<close>; a Go map
  from strings to strings is an association list with one pair for each key.
\<close>

definition parseRecord ::
  "deps \<Rightarrow> nat \<times> Time \<times> (string \<times> string) list \<Rightarrow> string
     \<Rightarrow> nat \<times> Time \<times> (string \<times> string) list" where
  "parseRecord c st r0 =
     (case st of (unnamed, ts, attrs) \<Rightarrow>
        let r = Trim r0 (CHR 0x22);
            split = Split r (CHR ''='');
            fields = (if length split \<noteq> 2 then [''_'' @ itoa unnamed, r] else split);
            unnamed' = (if length split \<noteq> 2 then unnamed + 1 else unnamed)
        in if fields ! 0 = ATTR_TIMESTAMP c then
             (case ParseInt (fields ! 1) of
                (i, Some err) \<Rightarrow> (unnamed', ts, attrs)
              | (i, None) \<Rightarrow> (unnamed', time_Unix i, attrs))
           else (unnamed', ts, AList.update (fields ! 0) (fields ! 1) attrs))"

definition parseRecords :: "deps \<Rightarrow> string list \<Rightarrow> nat \<times> Time \<times> (string \<times> string) list" where
  "parseRecords c records = foldl (parseRecord c) (0, 0, []) records"

definition AssureTimestamp :: "Time option \<Rightarrow> Time \<Rightarrow> bool \<times> Time option" where
  "AssureTimestamp target ts =
     (if time_IsZero ts then (target \<noteq> None, None)
      else (case target of
              None \<Rightarrow> (True, Some ts)
            | Some t \<Rightarrow> (\<not> time_Equal t ts, Some ts)))"

definition EqualAttrs :: "(string \<times> string) list \<Rightarrow> (string \<times> string) list \<Rightarrow> bool" where
  "EqualAttrs a b =
     (if length a \<noteq> length b then False
      else list_all (\<lambda>kv. map_of b (fst kv) = Some (snd kv)) a)"

text \<open>
  What one round of the loop over the lock entries computes before it writes:
  \<open>updateRequired\<close>, \<open>firstfailed\<close>, \<open>ts\<close> and \<open>attrs\<close>.
\<close>

definition lookupLock ::
  "deps \<Rightarrow> env \<Rightarrow> Time \<Rightarrow> Entry \<Rightarrow> bool \<times> Time \<times> Time \<times> (string \<times> string) list" where
  "lookupLock c ev startupTime e =
     (case LookupTXT_result ev (DNSName e) of
        Inr records \<Rightarrow>
          (case parseRecords c records of (unnamed, ts, attrs) \<Rightarrow> (False, 0, ts, attrs))
      | Inl err \<Rightarrow>
          let now = time_Now ev;
              status = ob_Status (Object_of e);
              ttl = mul64 (ob_TTL (Object_of e)) Second
          in case st_FirstFailedDNSLookup status of
               None \<Rightarrow> (st_State status \<noteq> STATE_READY, now, 0, [])
             | Some ff \<Rightarrow>
                 if time_After ff startupTime
                 then (mul64 ttl 2 < time_Sub now ff, ff, 0, [])
                 else (st_State status \<noteq> STATE_READY, now, 0, []))"

text \<open>The modifier that \<open>UpdateLockStates\<close> hands to \<open>ModifyStatus\<close>.\<close>

definition lockStateModifier ::
  "Time \<Rightarrow> Time \<Rightarrow> (string \<times> string) list \<Rightarrow> ObjStatus \<Rightarrow> bool \<times> ObjStatus" where
  "lockStateModifier ts firstfailed attrs status =
     (let m1 = AssureTimestamp (st_Timestamp status) ts;
          state = (if \<not> time_IsZero firstfailed then STATE_STALE else STATE_READY);
          msg = (if \<not> time_IsZero firstfailed then RecordCannotBeLookedUp else RecordIsSet);
          m2 = AssureTimestamp (st_FirstFailedDNSLookup status) firstfailed
      in (fst m1 \<or> st_State status \<noteq> state \<or> st_Message status \<noteq> Some msg \<or> fst m2
            \<or> \<not> EqualAttrs attrs (st_Attributes status),
          status\<lparr>st_Timestamp := snd m1, st_State := state, st_Message := Some msg,
                 st_FirstFailedDNSLookup := snd m2, st_Attributes := attrs\<rparr>))"

text \<open>
  \<open>ModifyStatus\<close> writes only when the modifier reports a change (\<open>I_modify\<close> returns
  at once otherwise); the object in memory is replaced when the write succeeds. The
  retries of \<open>I_modify\<close> on a conflict are part of the one outcome the environment gives.
\<close>

definition ModifyStatus :: "env \<Rightarrow> Object \<Rightarrow> bool \<times> ObjStatus \<Rightarrow> error option \<times> Object \<times> call list" where
  "ModifyStatus ev obj m =
     (if \<not> fst m then (None, obj, [])
      else case ModifyStatus_result ev (ob_ObjectName obj) (snd m) of
             None \<Rightarrow> (None, obj\<lparr>ob_Status := snd m\<rparr>, [Call_ModifyStatus (ob_ObjectName obj) (snd m)])
           | Some err \<Rightarrow> (Some err, obj, [Call_ModifyStatus (ob_ObjectName obj) (snd m)]))"

definition setObject :: "Entry \<Rightarrow> Object \<Rightarrow> Entry" where
  "setObject e obj = e\<lparr>en_version := (en_version e)\<lparr>ev_object := obj\<rparr>\<rparr>"

text \<open>One round of the loop of \<open>UpdateLockStates\<close> over the lock entries.\<close>

definition updateLockState :: "deps \<Rightarrow> env \<Rightarrow> Time \<Rightarrow> Entry \<Rightarrow> Entry \<times> call list" where
  "updateLockState c ev startupTime e =
     (case lookupLock c ev startupTime e of
        (updateRequired, firstfailed, ts, attrs) \<Rightarrow>
          (case ModifyStatus ev (Object_of e)
                  (lockStateModifier ts firstfailed attrs (ob_Status (Object_of e))) of
             (err, obj, calls) \<Rightarrow>
               let e1 = setObject e obj;
                   t1 = Call_LookupTXT (DNSName e) # calls
               in if updateRequired
                  then (e1\<lparr>en_updateRequired := True\<rparr>, t1 @ [Call_Enqueue (ob_ObjectName obj)])
                  else (e1, t1)))"

subsection \<open>Writing a lock: checkAndUpdateLock\<close>

text \<open>The comparison of the desired record set with the observed, non-empty one.\<close>

definition recordsChanged :: "RecordSet \<Rightarrow> RecordSet \<Rightarrow> bool" where
  "recordsChanged newRS rs =
     (let oldTTL = pr_TTL (hd rs);
          oldRecords = remdups (map pr_Value rs)
      in if length newRS = length oldRecords
         then list_ex (\<lambda>r. \<not> List.member oldRecords (pr_Value r) \<or> oldTTL \<noteq> pr_TTL r) newRS
         else True)"

text \<open>The modifier that \<open>checkAndUpdateLock\<close> hands to \<open>ModifyStatus\<close>.\<close>

definition lockWrittenModifier :: "EntryPremise \<Rightarrow> Provider \<Rightarrow> ObjStatus \<Rightarrow> bool \<times> ObjStatus" where
  "lockWrittenModifier premise prov status =
     (st_FirstFailedDNSLookup status \<noteq> None
        \<or> st_Zone status \<noteq> Some (pm_zoneid premise)
        \<or> st_Provider status \<noteq> Some (pv_ObjectName prov)
        \<or> st_ProviderType status \<noteq> Some (pm_ptype premise),
      status\<lparr>st_FirstFailedDNSLookup := None, st_Zone := Some (pm_zoneid premise),
             st_Provider := Some (pv_ObjectName prov),
             st_ProviderType := Some (pm_ptype premise)\<rparr>)"

text \<open>The end of \<open>checkAndUpdateLock\<close>, from \<open>if changed\<close> on.\<close>

definition writeLock ::
  "env \<Rightarrow> zoneinfo option \<Rightarrow> Entry \<Rightarrow> EntryPremise \<Rightarrow> Provider \<Rightarrow> RecordSet \<Rightarrow> bool \<Rightarrow> call list
     \<Rightarrow> Status \<times> Entry \<times> call list" where
  "writeLock ev zone entry premise prov newRS changed t0 =
     (let t1 = (if changed then t0 @ [Call_CreateOrUpdateRecordSet zone newRS] else t0) in
      case (if changed then CreateOrUpdateRecordSet_result ev zone newRS else None) of
        Some err \<Rightarrow> (Delay err, entry, t1)
      | None \<Rightarrow>
          let entry1 = entry\<lparr>en_updateRequired := False\<rparr> in
          case ModifyStatus ev (Object_of entry1)
                 (lockWrittenModifier premise prov (ob_Status (Object_of entry1))) of
            (Some err, obj, calls) \<Rightarrow> (Delay err, setObject entry1 obj, t1 @ calls)
          | (None, obj, calls) \<Rightarrow> (Succeeded, setObject entry1 obj, t1 @ calls))"

text \<open>
  \<open>resources.UpdateStandardObjectStatus\<close> is not among the sources. It is a
  modification of the status of the object that goes through \<open>I_modify\<close>: when it
  succeeds, the object in memory is replaced by the written one
  (\<open>this.ObjectData = modified\<close>), which carries the state and the message; when it
  fails, the object in memory stays as it was.
\<close>

definition UpdateStandardObjectStatus ::
  "env \<Rightarrow> Object \<Rightarrow> StatusState \<Rightarrow> message \<Rightarrow> error option \<times> Object \<times> call list" where
  "UpdateStandardObjectStatus ev obj state msg =
     (case UpdateStandardObjectStatus_result ev (ob_ObjectName obj) state msg of
        None \<Rightarrow>
          (None, obj\<lparr>ob_Status := (ob_Status obj)\<lparr>st_State := state, st_Message := Some msg\<rparr>\<rparr>,
           [Call_UpdateStandardObjectStatus (ob_ObjectName obj) state msg])
      | Some err \<Rightarrow> (Some err, obj, [Call_UpdateStandardObjectStatus (ob_ObjectName obj) state msg]))"

text \<open>
  The two places where \<open>checkAndUpdateLock\<close> gives up the lock: the status goes to
  stale, and the function returns a delay when that update fails, success otherwise.
\<close>

definition staleLock ::
  "env \<Rightarrow> Entry \<Rightarrow> message \<Rightarrow> call list \<Rightarrow> Status \<times> Entry \<times> call list" where
  "staleLock ev entry msg t0 =
     (case UpdateStandardObjectStatus ev (Object_of entry) STATE_STALE msg of
        (Some err, obj, calls) \<Rightarrow> (Delay err, setObject entry obj, t0 @ calls)
      | (None, obj, calls) \<Rightarrow> (Succeeded, setObject entry obj, t0 @ calls))"

definition checkAndUpdateLock ::
  "deps \<Rightarrow> env \<Rightarrow> arch \<Rightarrow> (string \<rightharpoonup> zoneinfo) \<Rightarrow> Entry \<Rightarrow> EntryPremise
     \<Rightarrow> panic + Status \<times> Entry \<times> call list" where
  "checkAndUpdateLock c ev a zones entry premise =
     (if \<not> en_updateRequired entry then Inr (Succeeded, entry, [])
      else case pm_provider premise of
        None \<Rightarrow> Inl NilProvider
      | Some prov \<Rightarrow>
          let zone = zones (ZoneId entry);
              newTTL = ev_ttl (en_version entry);
              records = map (\<lambda>s. Record (AsRecordValue c s)) (ob_Text (Object_of entry));
              newRS = FromPlainRecordSet a (DNSName entry) (NewRecordSet (RS_TXT c) newTTL records);
              t0 = [Call_GetRecordSet zone (DNSName entry) (RS_TXT c)]
          in case GetRecordSet_result ev zone (DNSName entry) (RS_TXT c) of
               Inl err \<Rightarrow> Inr (Delay err, entry, t0)
             | Inr None \<Rightarrow> Inr (writeLock ev zone entry premise prov newRS True t0)
             | Inr (Some rs) \<Rightarrow>
                 if length rs \<noteq> 0 then
                   (case GetAttr rs (ATTR_LOCKID c) of
                      None \<Rightarrow> Inl SliceBoundsOutOfRange
                    | Some lckDNS \<Rightarrow>
                        let lckOwn = StringValue (ob_LockId (Object_of entry)) in
                        if lckOwn \<noteq> lckDNS
                        then Inr (staleLock ev entry (MismatchingLockIds lckOwn lckDNS) t0)
                        else
                          (case GetAttr rs (ATTR_TIMESTAMP c) of
                             None \<Rightarrow> Inl SliceBoundsOutOfRange
                           | Some v \<Rightarrow>
                               (case ParseInt v of
                                  (i, Some err) \<Rightarrow>
                                    Inr (staleLock ev entry (InvalidTimestampInRecord v) t0)
                                | (i, None) \<Rightarrow>
                                    let tsDNS = time_Unix i;
                                        tsOwn = ob_Timestamp (Object_of entry)
                                    in if time_Before tsOwn tsDNS
                                       then Inr (Succeeded, entry, t0)
                                       else Inr (writeLock ev zone entry premise prov newRS
                                                   (recordsChanged newRS rs) t0))))
                 else Inr (writeLock ev zone entry premise prov newRS True t0))"

subsection \<open>Deleting a lock: checkAndDeleteLock\<close>

definition RemoveFinalizer :: "env \<Rightarrow> Object \<Rightarrow> error option \<times> call list" where
  "RemoveFinalizer ev obj =
     (RemoveFinalizer_result ev (ob_ObjectName obj), [Call_RemoveFinalizer (ob_ObjectName obj)])"

definition checkAndDeleteLock ::
  "deps \<Rightarrow> env \<Rightarrow> (string \<rightharpoonup> zoneinfo) \<Rightarrow> Entry \<Rightarrow> EntryPremise
     \<Rightarrow> panic + Status \<times> call list" where
  "checkAndDeleteLock c ev zones entry premise =
     (case pm_provider premise of
        None \<Rightarrow> Inl NilProvider
      | Some prov \<Rightarrow>
          let zone = zones (ZoneId entry);
              t0 = [Call_GetRecordSet zone (DNSName entry) (RS_TXT c)];
              finish = (\<lambda>t. case RemoveFinalizer ev (Object_of entry) of
                               (err, calls) \<Rightarrow> Inr (DelayOnError err, t @ calls))
          in case GetRecordSet_result ev zone (DNSName entry) (RS_TXT c) of
               Inl err \<Rightarrow> Inr (Delay err, t0)
             | Inr None \<Rightarrow> finish t0
             | Inr (Some rs) \<Rightarrow>
                 (case GetAttr rs (ATTR_LOCKID c) of
                    None \<Rightarrow> Inl SliceBoundsOutOfRange
                  | Some lckDNS \<Rightarrow>
                      let lckOwn = StringValue (ob_LockId (Object_of entry)) in
                      (case GetAttr rs (ATTR_TIMESTAMP c) of
                         None \<Rightarrow> Inl SliceBoundsOutOfRange
                       | Some v \<Rightarrow>
                           let i = fst (ParseInt v);
                               tsDNS = time_Unix i;
                               tsOwn = ob_Timestamp (Object_of entry)
                           in if lckOwn = lckDNS \<and> \<not> time_After tsDNS tsOwn then
                                (case DeleteRecordSet_result ev zone rs of
                                   Some err \<Rightarrow> Inr (Delay err, t0 @ [Call_DeleteRecordSet zone rs])
                                 | None \<Rightarrow> finish (t0 @ [Call_DeleteRecordSet zone rs]))
                              else finish t0)))"

section \<open>The state of the entries\<close>

text \<open>
  Entries are shared by pointer between the index \<open>entries\<close>, the map \<open>dnsnames\<close> and
  the set \<open>outdated\<close>, and the engine compares and mutates them through these
  pointers. An entry therefore lives in a store at an address; the maps hold
  addresses. The index is an association list with one pair for each object name: a
  \<open>range\<close> loop over the Go map visits its pairs in an order that Go does not fix,
  and here in the order of the list. The calls that leave the process are appended
  to \<open>s_calls\<close>.
\<close>

type_synonym ref = nat

record state =
  s_heap :: "ref \<Rightarrow> Entry"
  s_nextref :: ref
  s_entries :: "(string \<times> ref) list"
  s_dnsnames :: "string \<rightharpoonup> ref"
  s_zones :: "string \<rightharpoonup> zoneinfo"
  s_outdated :: "string \<rightharpoonup> ref"
  s_blockingEntries :: "string \<rightharpoonup> Time"
  s_typeCodes :: "string list"
  s_ownerIds :: "string list"
  s_startupTime :: Time
  s_calls :: "call list"

definition emit :: "state \<Rightarrow> call list \<Rightarrow> state" where
  "emit s cs = s\<lparr>s_calls := s_calls s @ cs\<rparr>"

definition IsManaging :: "state \<Rightarrow> EntryVersion \<Rightarrow> bool" where
  "IsManaging s v =
     (case st_ProviderType (ev_status v) of
        None \<Rightarrow> False
      | Some t \<Rightarrow> t \<in> set (s_typeCodes s))"

definition TriggerEntry :: "state \<Rightarrow> ref \<Rightarrow> state" where
  "TriggerEntry s e = emit s [Call_EnqueueKey (ClusterKey (s_heap s e))]"

text \<open>
  Modelled from the spec: \<open>Entry.Before\<close> is missing from the sources. "Earlier" is
  "a total order: primarily the object's creation timestamp, with object name as a
  deterministic tie-break".
\<close>

definition Before :: "Entry \<Rightarrow> Entry \<Rightarrow> bool" where
  "Before a b =
     (if time_Equal (ob_CreationTimestamp (Object_of a)) (ob_CreationTimestamp (Object_of b))
      then ObjectName a < ObjectName b
      else time_Before (ob_CreationTimestamp (Object_of a)) (ob_CreationTimestamp (Object_of b)))"

text \<open>
  Modelled from the spec: \<open>Entry.IsActive\<close> is missing from the sources. "The union of
  active ids forms the owner filter set; entries whose owner-id is outside this set
  are observed but not managed."
\<close>

definition IsActive :: "state \<Rightarrow> Entry \<Rightarrow> bool" where
  "IsActive s e = (ob_OwnerId (Object_of e) \<in> set (s_ownerIds s))"

text \<open>
  Modelled from the spec: \<open>NewEntry\<close> and \<open>Entry.Update\<close> are missing from the sources.
  An entry is "created on first observation; updated in place per observed generation
  (old and new share object identity through the index)"; when the DNS name of the
  new version differs, \<open>Update\<close> returns a fresh entry (the source says of
  \<open>old != new\<close>: "DNS name changed"). Either way the entry embeds the new version.
\<close>

definition NewEntry :: "deps \<Rightarrow> state \<Rightarrow> EntryVersion \<Rightarrow> ref \<times> state" where
  "NewEntry c s v =
     (s_nextref s,
      s\<lparr>s_heap := (s_heap s)(s_nextref s := (newEntryFlags c v)\<lparr>en_version := v\<rparr>),
        s_nextref := Suc (s_nextref s)\<rparr>)"

definition Update :: "deps \<Rightarrow> state \<Rightarrow> ref \<Rightarrow> EntryVersion \<Rightarrow> ref \<times> state" where
  "Update c s old v =
     (if DNSName (s_heap s old) \<noteq> ev_dnsname v then NewEntry c s v
      else (old, s\<lparr>s_heap := (s_heap s)(old := (updateFlags c (s_heap s old) v)\<lparr>en_version := v\<rparr>)\<rparr>))"

text \<open>
  Modelled from the spec: \<open>Entries.Delete\<close> is missing from the sources. It "removes
  the entry from the index": the pair of the entry's object name is removed when it
  holds this entry, not when another entry has taken the name.
\<close>

definition Entries_Delete :: "(string \<times> ref) list \<Rightarrow> string \<Rightarrow> ref \<Rightarrow> (string \<times> ref) list" where
  "Entries_Delete es name e = (if map_of es name = Some e then AList.delete name es else es)"

subsection \<open>cleanupEntry\<close>

text \<open>The loop over the index, with the variable \<open>found\<close>.\<close>

fun scanDuplicates :: "(ref \<Rightarrow> Entry) \<Rightarrow> string \<Rightarrow> ref list \<Rightarrow> ref option \<Rightarrow> ref option" where
  "scanDuplicates h dn [] found = found"
| "scanDuplicates h dn (a # as) found =
     scanDuplicates h dn as
       (if en_duplicate (h a) \<and> DNSName (h a) = dn then
          (case found of
             None \<Rightarrow> Some a
           | Some f \<Rightarrow> if Before (h a) (h f) then Some a else Some f)
        else found)"

definition cleanupEntry :: "state \<Rightarrow> ref \<Rightarrow> state" where
  "cleanupEntry s e =
     (let en = s_heap s e;
          s1 = s\<lparr>s_entries := Entries_Delete (s_entries s) (ObjectName en) e\<rparr>
      in if s_dnsnames s1 (DNSName en) = Some e then
           let found = scanDuplicates (s_heap s1) (DNSName en) (map snd (s_entries s1)) None;
               s2 = (case found of None \<Rightarrow> s1 | Some f \<Rightarrow> TriggerEntry s1 f)
           in s2\<lparr>s_dnsnames := (s_dnsnames s2)(DNSName en := None)\<rparr>
         else s1)"

subsection \<open>AddEntryVersion\<close>

text \<open>The branch for a deleting version (\<open>if v.IsDeleting()\<close>).\<close>

definition AddEntryVersion_deleting ::
  "env \<Rightarrow> state \<Rightarrow> EntryVersion \<Rightarrow> ref option \<Rightarrow> ref \<Rightarrow> ref option \<times> Status \<times> state" where
  "AddEntryVersion_deleting ev s2 v old new =
     (let name = ob_ObjectName (ev_object v);
          s3 = (case old of
                  None \<Rightarrow> s2
                | Some ol \<Rightarrow> if EntryKind (s_heap s2 ol) \<noteq> DNSLockKind then cleanupEntry s2 ol else s2);
          n = s_heap s3 new;
          finish = (\<lambda>remove.
             if remove then
               (case RemoveFinalizer ev (ev_object v) of
                  (None, calls) \<Rightarrow> (Some new, DelayOnError None, emit s3 calls)
                | (Some err, calls) \<Rightarrow>
                    (Some new, DelayOnError (Some err),
                     (emit s3 calls)\<lparr>s_entries := AList.update name new (s_entries s3)\<rparr>))
             else (Some new, DelayOnError None, s3))
      in if ev_valid (en_version n) then
           (if s_zones s3 (en_activezone n) \<noteq> None then
              (if ob_HasFinalizer (Object_of n)
               then (Some new, Succeeded, s3\<lparr>s_outdated := (s_outdated s3)(ObjectName n \<mapsto> new)\<rparr>)
               else finish False)
            else finish (\<not> IsActive s3 n \<or> st_Zone (ob_Status (ev_object v)) = None))
         else finish (\<not> IsActive s3 n \<or> st_State (ob_Status (ev_object v)) \<noteq> STATE_STALE))"

text \<open>The arbitration of the DNS name, from \<open>dnsname := v.DNSName()\<close> to the end.\<close>

definition AddEntryVersion_arbitrate ::
  "env \<Rightarrow> state \<Rightarrow> EntryVersion \<Rightarrow> ref \<Rightarrow> Status \<Rightarrow> ref option \<times> Status \<times> state" where
  "AddEntryVersion_arbitrate ev s v new status =
     (let dnsname = ev_dnsname v;
          cur = s_dnsnames s dnsname;
          name = ObjectName (s_heap s new);
          activate = (\<lambda>s'.
            let n = s_heap s' new;
                s'' = (if ev_valid (en_version n)
                          \<and> st_State (ev_status (en_version n)) \<noteq> STATE_READY
                          \<and> st_State (ev_status (en_version n)) \<noteq> STATE_PENDING
                       then emit s' [Call_UpdateStatus (ObjectName n) STATE_PENDING (ActivatingFor (DNSName n))]
                       else s')
            in (Some new, status, s''\<lparr>s_dnsnames := (s_dnsnames s'')(dnsname \<mapsto> new)\<rparr>))
      in if dnsname \<noteq> [] then
           (case cur of
              None \<Rightarrow> activate s
            | Some cr \<Rightarrow>
                if ObjectName (s_heap s cr) \<noteq> name then
                  (if Before (s_heap s cr) (s_heap s new) then
                     let s1 = s\<lparr>s_heap := (s_heap s)
                                  (new := (s_heap s new)\<lparr>en_duplicate := True, en_modified := False\<rparr>)\<rparr>;
                         msg = AlreadyBusyForEntry dnsname (ObjectName (s_heap s cr))
                     in if IsSucceeded status then
                          (case UpdateStatus_result ev (ob_ObjectName (ev_object v)) STATE_ERROR msg of
                             Some err \<Rightarrow>
                               (Some new, DelayOnError (Some err),
                                emit s1 [Call_UpdateStatus (ob_ObjectName (ev_object v)) STATE_ERROR msg])
                           | None \<Rightarrow>
                               (Some new, status,
                                emit s1 [Call_UpdateStatus (ob_ObjectName (ev_object v)) STATE_ERROR msg]))
                        else (Some new, status, s1)
                   else
                     activate
                       (emit (s\<lparr>s_heap := (s_heap s)
                                 (cr := (s_heap s cr)\<lparr>en_duplicate := True, en_modified := False\<rparr>)\<rparr>)
                          [Call_triggerKey (ClusterKey (s_heap s cr))]))
                else activate s)
         else (Some new, status, s))"

text \<open>
  The start of \<open>AddEntryVersion\<close>: the name leaves the blocking set, and the entry
  for the version is a fresh one or the old one, updated.
\<close>

definition AddEntryVersion_entry :: "deps \<Rightarrow> state \<Rightarrow> EntryVersion \<Rightarrow> ref \<times> state" where
  "AddEntryVersion_entry c s0 v =
     (let name = ob_ObjectName (ev_object v);
          s1 = s0\<lparr>s_blockingEntries := (s_blockingEntries s0)(name := None)\<rparr>
      in case map_of (s_entries s1) name of
           None \<Rightarrow> NewEntry c s1 v
         | Some ol \<Rightarrow> Update c s1 ol v)"

text \<open>
  The finalizer is set, the entry is installed in the index, and an old entry that
  was replaced is cleaned up (from \<open>if new.valid && this.IsManaging(v)\<close> to the test
  of \<open>IsManaging\<close>). \<open>Inl\<close> is the early return with the error of \<open>SetFinalizer\<close>.
\<close>

definition AddEntryVersion_install ::
  "env \<Rightarrow> state \<Rightarrow> EntryVersion \<Rightarrow> ref option \<Rightarrow> ref \<Rightarrow> error \<times> state + state" where
  "AddEntryVersion_install ev s2 v old new =
     (let name = ob_ObjectName (ev_object v);
          needsFinalizer = (ev_valid (en_version (s_heap s2 new)) \<and> IsManaging s2 v);
          s3 = (if needsFinalizer then emit s2 [Call_SetFinalizer (ObjectName (s_heap s2 new))] else s2)
      in case (if needsFinalizer then SetFinalizer_result ev (ObjectName (s_heap s2 new)) else None) of
           Some err \<Rightarrow> Inl (err, s3)
         | None \<Rightarrow>
             let s4 = s3\<lparr>s_entries := AList.update name new (s_entries s3)\<rparr>
             in Inr (case old of
                       None \<Rightarrow> s4
                     | Some ol \<Rightarrow>
                         if ol \<noteq> new then
                           (let s' = cleanupEntry s4 ol;
                                oz = en_activezone (s_heap s' ol)
                            in if oz \<noteq> [] \<and> oz \<noteq> ZoneId (s_heap s' new) \<and> s_zones s' oz \<noteq> None
                               then emit s' [Call_triggerHostedZone oz]
                               else s')
                         else s4))"

definition AddEntryVersion ::
  "deps \<Rightarrow> env \<Rightarrow> state \<Rightarrow> EntryVersion \<Rightarrow> Status \<Rightarrow> ref option \<times> Status \<times> state" where
  "AddEntryVersion c ev s0 v status =
     (let old = map_of (s_entries s0) (ob_ObjectName (ev_object v));
          new = fst (AddEntryVersion_entry c s0 v);
          s2 = snd (AddEntryVersion_entry c s0 v)
      in if ob_IsDeleting (ev_object v) then AddEntryVersion_deleting ev s2 v old new
         else
           case AddEntryVersion_install ev s2 v old new of
             Inl (err, s3) \<Rightarrow> (Some new, DelayOnError (Some err), s3)
           | Inr s5 \<Rightarrow>
               if \<not> IsManaging s5 v then (None, status, s5)
               else AddEntryVersion_arbitrate ev s5 v new status)"

subsection \<open>EntryPremise and HandleUpdateEntry\<close>

text \<open>
  \<open>lookupProvider\<close> and \<open>getProviderZoneForName\<close> are not among the sources; what they
  return at the time of a call, and the enabled provider types of the configuration,
  make up the record \<open>providers\<close>.
\<close>

record providers =
  lookupProvider :: "Object \<Rightarrow> Provider option \<times> Provider option \<times> error option"
  getProviderZoneForName :: "string \<Rightarrow> Provider option \<Rightarrow> zoneinfo option"
  config_Enabled :: "string list"

definition withZone :: "EntryPremise \<Rightarrow> zoneinfo \<Rightarrow> EntryPremise" where
  "withZone p zone = p\<lparr>pm_ptype := z_ProviderType zone, pm_zoneid := z_Id zone,
                        pm_zonedomain := z_Domain zone\<rparr>"

definition EntryPremise :: "providers \<Rightarrow> Object \<Rightarrow> EntryPremise \<times> error option" where
  "EntryPremise w e =
     (case lookupProvider w e of (provider, fallback, err) \<Rightarrow>
        let p = \<lparr>pm_ptypes = config_Enabled w, pm_ptype = [], pm_provider = provider,
                 pm_fallback = fallback, pm_zoneid = [], pm_zonedomain = []\<rparr>
        in (case getProviderZoneForName w (ob_DNSName e) provider of
              Some zone \<Rightarrow> (withZone p zone, err)
            | None \<Rightarrow>
                (case provider of
                   Some pr \<Rightarrow>
                     if \<not> pv_IsValid pr \<and> st_Zone (ob_Status e) \<noteq> None
                     then (p\<lparr>pm_ptype := pv_TypeCode pr, pm_zoneid := the (st_Zone (ob_Status e))\<rparr>, err)
                     else if fallback \<noteq> None then
                       (case getProviderZoneForName w (ob_DNSName e) fallback of
                          Some zone \<Rightarrow> (withZone p zone, err)
                        | None \<Rightarrow> (p, err))
                     else (p, err)
                 | None \<Rightarrow>
                     if fallback \<noteq> None then
                       (case getProviderZoneForName w (ob_DNSName e) fallback of
                          Some zone \<Rightarrow> (withZone p zone, err)
                        | None \<Rightarrow> (p, err))
                     else (p, err))))"

text \<open>
  Modelled from the spec: \<open>EntryPremise.Match\<close> is missing from the sources. "Two
  premises match iff their (ptype, zoneid, providerObjectName, fallback-present)
  tuples are equal."
\<close>

definition Match :: "EntryPremise \<Rightarrow> EntryPremise \<Rightarrow> bool" where
  "Match this p =
     (pm_ptype this = pm_ptype p \<and> pm_zoneid this = pm_zoneid p
      \<and> map_option pv_ObjectName (pm_provider this) = map_option pv_ObjectName (pm_provider p)
      \<and> (pm_fallback this \<noteq> None) = (pm_fallback p \<noteq> None))"

text \<open>
  \<open>HandleUpdateEntry\<close> reads the premise before \<open>AddEntryVersion\<close> and, on the paths
  that reach its last lines, once more after it; other workers may change the providers
  in between, so the two readings are of \<open>w1\<close> and of \<open>w2\<close>. The result names, next to
  the status and the state, the premise of the second reading (\<open>check\<close>) when the
  handler makes it, and \<open>None\<close> when it returns before. The deferred calls at its end
  (statistic and holder notification) take no part in the status and are left out.

  Its start, up to \<open>v.Setup\<close>: the premise, the error for a zone without provider,
  and the entry version with the status of its validation.
\<close>

definition HandleUpdateEntry_version ::
  "deps \<Rightarrow> providers \<Rightarrow> state \<Rightarrow> string \<Rightarrow> Object \<Rightarrow> EntryVersion \<times> Status" where
  "HandleUpdateEntry_version c w1 s op object =
     (let old = map_option (s_heap s) (map_of (s_entries s) (ob_ObjectName object));
          p = fst (EntryPremise w1 object);
          err0 = snd (EntryPremise w1 object);
          err = (if pm_provider p = None \<and> err0 = None \<and> pm_zoneid p \<noteq> []
                 then Some (NoMatchingProvider (pm_zoneid p)) else err0);
          v0 = NewEntryVersion c object old;
          v1 = (if pm_fallback p \<noteq> None then v0\<lparr>ev_obsolete := True\<rparr> else v0)
      in Setup c v1 p op err old)"

definition HandleUpdateEntry ::
  "deps \<Rightarrow> env \<Rightarrow> arch \<Rightarrow> providers \<Rightarrow> providers \<Rightarrow> state \<Rightarrow> string \<Rightarrow> Object
     \<Rightarrow> panic + Status \<times> state \<times> EntryPremise option" where
  "HandleUpdateEntry c ev a w1 w2 s op object =
     (let p = fst (EntryPremise w1 object);
          v = fst (HandleUpdateEntry_version c w1 s op object);
          status0 = snd (HandleUpdateEntry_version c w1 s op object);
          added = AddEntryVersion c ev s v status0;
          new = fst added;
          status1 = fst (snd added);
          s1 = snd (snd added);
          recheck = (\<lambda>status s'.
            if \<not> ob_IsDeleting object then
              (let check = fst (EntryPremise w2 object)
               in if \<not> Match check p then Inr (Repeat, s', Some check)
                  else Inr (status, s', Some check))
            else Inr (status, s', None))
      in case new of
           None \<Rightarrow> recheck status1 s1
         | Some n \<Rightarrow>
             if EntryKind (s_heap s1 n) = DNSLockKind then
               (if ob_IsDeleting object then
                  (case checkAndDeleteLock c ev (s_zones s1) (s_heap s1 n) p of
                     Inl pn \<Rightarrow> Inl pn
                   | Inr (st, calls) \<Rightarrow> Inr (st, emit s1 calls, None))
                else
                  (case checkAndUpdateLock c ev a (s_zones s1) (s_heap s1 n) p of
                     Inl pn \<Rightarrow> Inl pn
                   | Inr (st, e', calls) \<Rightarrow>
                       Inr (st, emit (s1\<lparr>s_heap := (s_heap s1)(n := e')\<rparr>) calls, None)))
             else
               let e = s_heap s1 n;
                   status2 = (if IsSucceeded status1 \<and> ev_valid (en_version e)
                                 \<and> 0 < ev_interval (en_version e)
                              then RescheduleAfter status1 (mul64 (ev_interval (en_version e)) Second)
                              else status1);
                   s2 = (if en_modified e \<and> ZoneId e \<noteq> []
                         then emit s1 [Call_triggerHostedZone (ZoneId e)] else s1)
               in recheck status2 s2)"

subsection \<open>UpdateLockStates\<close>

definition UpdateLockStates :: "deps \<Rightarrow> env \<Rightarrow> state \<Rightarrow> state" where
  "UpdateLockStates c ev s =
     foldl (\<lambda>s' r. case updateLockState c ev (s_startupTime s') (s_heap s' r) of
                      (e', calls) \<Rightarrow> emit (s'\<lparr>s_heap := (s_heap s')(r := e')\<rparr>) calls)
       s (filter (\<lambda>r. EntryKind (s_heap s r) = DNSLockKind) (map snd (s_entries s)))"

section \<open>The vocabulary of the properties\<close>

subsection \<open>Attributes of a looked-up lock\<close>

text \<open>
  A TXT string is named when, trimmed of its quotes, it holds exactly one \<open>=\<close>; its
  key is the text before the \<open>=\<close> and its value the text after it. \<open>unnamedBefore\<close>
  counts the strings before position \<open>i\<close> that are not named, and \<open>keyAt\<close> and
  \<open>valueAt\<close> are the key and the value of the string at position \<open>i\<close>: those of a
  named string, or the synthetic key and the whole trimmed string.
\<close>

definition isNamed :: "string \<Rightarrow> bool" where
  "isNamed r0 = (count_list (Trim r0 (CHR 0x22)) (CHR ''='') = 1)"

definition namedKey :: "string \<Rightarrow> string" where
  "namedKey r0 = takeWhile (\<lambda>x. x \<noteq> CHR ''='') (Trim r0 (CHR 0x22))"

definition namedValue :: "string \<Rightarrow> string" where
  "namedValue r0 = tl (dropWhile (\<lambda>x. x \<noteq> CHR ''='') (Trim r0 (CHR 0x22)))"

definition unnamedBefore :: "string list \<Rightarrow> nat \<Rightarrow> nat" where
  "unnamedBefore records i = length (filter (\<lambda>r. \<not> isNamed r) (take i records))"

definition keyAt :: "string list \<Rightarrow> nat \<Rightarrow> string" where
  "keyAt records i =
     (if isNamed (records ! i) then namedKey (records ! i)
      else ''_'' @ itoa (unnamedBefore records i))"

definition valueAt :: "string list \<Rightarrow> nat \<Rightarrow> string" where
  "valueAt records i =
     (if isNamed (records ! i) then namedValue (records ! i)
      else Trim (records ! i) (CHR 0x22))"

subsection \<open>Calls and record values\<close>


definition isStatusUpdate :: "call \<Rightarrow> bool" where
  "isStatusUpdate x = (case x of Call_UpdateStatus n st m \<Rightarrow> True | _ \<Rightarrow> False)"

definition isFinalizerRemoval :: "call \<Rightarrow> bool" where
  "isFinalizerRemoval x = (case x of Call_RemoveFinalizer n \<Rightarrow> True | _ \<Rightarrow> False)"




subsection \<open>The index and the claimants of a DNS name\<close>

text \<open>
  The index holds every entry under its own object name, once. The claimants for the
  name of an entry \<open>e\<close> are the entries that remain in the index when \<open>e\<close> is
  deleted from it, are marked duplicate and have the DNS name of \<open>e\<close>.
\<close>

definition indexed :: "state \<Rightarrow> bool" where
  "indexed s =
     (distinct (map fst (s_entries s))
      \<and> list_all (\<lambda>kr. ObjectName (s_heap s (snd kr)) = fst kr) (s_entries s))"

definition isClaimant :: "(ref \<Rightarrow> Entry) \<Rightarrow> string \<Rightarrow> ref \<Rightarrow> bool" where
  "isClaimant h dn a = (en_duplicate (h a) \<and> DNSName (h a) = dn)"

definition claimants :: "state \<Rightarrow> ref \<Rightarrow> ref list" where
  "claimants s e =
     filter (isClaimant (s_heap s) (DNSName (s_heap s e)))
       (map snd (Entries_Delete (s_entries s) (ObjectName (s_heap s e)) e))"

subsection \<open>Auxiliary notions of the proofs\<close>

text \<open>
  The pair a record is filed under when the counter stands at \<open>n\<close>, the pairs of a
  list of records, and the step of the timestamp; and what \<open>NewEntry\<close> and \<open>Update\<close>
  leave untouched.
\<close>

definition kv :: "nat \<Rightarrow> string \<Rightarrow> string \<times> string" where
  "kv n r = (if isNamed r then (namedKey r, namedValue r) else (''_'' @ itoa n, Trim r (CHR 0x22)))"

fun keyvals :: "nat \<Rightarrow> string list \<Rightarrow> (string \<times> string) list" where
  "keyvals n [] = []"
| "keyvals n (r # rs) = kv n r # keyvals (if isNamed r then n else Suc n) rs"

definition tsStep :: "deps \<Rightarrow> Time \<Rightarrow> string \<times> string \<Rightarrow> Time" where
  "tsStep c ts p = (if fst p = ATTR_TIMESTAMP c \<and> snd (ParseInt (snd p)) = None
                    then time_Unix (fst (ParseInt (snd p))) else ts)"

definition tsHit :: "deps \<Rightarrow> string \<times> string \<Rightarrow> bool" where
  "tsHit c p = (fst p = ATTR_TIMESTAMP c \<and> snd (ParseInt (snd p)) = None)"

definition sameButHeap :: "state \<Rightarrow> state \<Rightarrow> bool" where
  "sameButHeap s s' =
     (s_entries s' = s_entries s \<and> s_dnsnames s' = s_dnsnames s \<and> s_zones s' = s_zones s
      \<and> s_outdated s' = s_outdated s \<and> s_typeCodes s' = s_typeCodes s
      \<and> s_ownerIds s' = s_ownerIds s \<and> s_calls s' = s_calls s)"

section \<open>Sample objects\<close>

text \<open>
  Concrete parameters, objects and states on which the theorems below are run: a
  provider of type \<open>aws\<close> with the zone \<open>z1\<close>, objects of one owner with the DNS name
  \<open>www.example.com\<close>, and an environment in which every call succeeds, no record set
  is found and the lookup fails.
\<close>

definition sample_deps :: deps where
  "sample_deps =
     \<lparr>ATTR_LOCKID = ''lockid'', ATTR_TIMESTAMP = ''ts'', RS_TXT = ''TXT'',
      AsRecordValue = (\<lambda>s. [CHR 0x22] @ s @ [CHR 0x22]),
      newEntryFlags = (\<lambda>v. \<lparr>en_version = v, en_duplicate = False, en_modified = True,
                              en_activezone = StringValue (st_Zone (ev_status v)),
                              en_updateRequired = False\<rparr>),
      updateFlags = (\<lambda>e v. e),
      NewEntryVersion = (\<lambda>obj old. \<lparr>ev_object = obj, ev_dnsname = ob_DNSName obj,
                              ev_status = ob_Status obj, ev_valid = False, ev_ttl = ob_TTL obj,
                              ev_interval = 0, ev_obsolete = False\<rparr>),
      Setup = (\<lambda>v p op err old.
                 (v\<lparr>ev_valid := (err = None),
                    ev_status := (ev_status v)\<lparr>st_ProviderType := Some (pm_ptype p),
                                               st_Zone := Some (pm_zoneid p)\<rparr>\<rparr>,
                  DelayOnError err))\<rparr>"

definition sample_status :: ObjStatus where
  "sample_status =
     \<lparr>st_State = STATE_NONE, st_Message = None, st_Zone = Some ''z1'', st_Provider = None,
      st_ProviderType = Some ''aws'', st_Timestamp = None, st_FirstFailedDNSLookup = None,
      st_Attributes = []\<rparr>"

definition sample_object :: "string \<Rightarrow> Kind \<Rightarrow> Time \<Rightarrow> Object" where
  "sample_object name kind created =
     \<lparr>ob_ObjectName = name, ob_Kind = kind, ob_CreationTimestamp = created,
      ob_IsDeleting = False, ob_HasFinalizer = True, ob_DNSName = ''www.example.com'',
      ob_OwnerId = ''owner1'', ob_Text = [''held''], ob_TTL = 60, ob_LockId = Some name,
      ob_Timestamp = time_Unix 50, ob_Status = sample_status\<rparr>"

definition sample_version :: "Object \<Rightarrow> EntryVersion" where
  "sample_version obj =
     \<lparr>ev_object = obj, ev_dnsname = ob_DNSName obj, ev_status = ob_Status obj, ev_valid = True,
      ev_ttl = ob_TTL obj, ev_interval = 0, ev_obsolete = False\<rparr>"

definition sample_entry :: "Object \<Rightarrow> Entry" where
  "sample_entry obj =
     \<lparr>en_version = sample_version obj, en_duplicate = False, en_modified = False,
      en_activezone = ''z1'', en_updateRequired = True\<rparr>"

definition sample_env :: env where
  "sample_env =
     \<lparr>GetRecordSet_result = (\<lambda>z n t. Inr None),
      CreateOrUpdateRecordSet_result = (\<lambda>z rs. None),
      DeleteRecordSet_result = (\<lambda>z rs. None),
      UpdateStandardObjectStatus_result = (\<lambda>n st m. None),
      UpdateStatus_result = (\<lambda>n st m. None),
      ModifyStatus_result = (\<lambda>n st. None),
      SetFinalizer_result = (\<lambda>n. None),
      RemoveFinalizer_result = (\<lambda>n. None),
      LookupTXT_result = (\<lambda>n. Inl (LookupError ''no such host'')),
      time_Now = 1130 * Second\<rparr>"

definition sample_record :: "string \<Rightarrow> plainRecord" where
  "sample_record s =
     \<lparr>pr_DNSName = ''www.example.com'', pr_Type = ''TXT'', pr_TTL = 60,
      pr_Value = [CHR 0x22] @ s @ [CHR 0x22]\<rparr>"

definition sample_zone :: zoneinfo where
  "sample_zone = \<lparr>z_Id = ''z1'', z_Domain = ''example.com'', z_ProviderType = ''aws''\<rparr>"

definition sample_provider :: Provider where
  "sample_provider = \<lparr>pv_ObjectName = ''provider1'', pv_TypeCode = ''aws'', pv_IsValid = True\<rparr>"

definition sample_premise :: EntryPremise where
  "sample_premise =
     \<lparr>pm_ptypes = [''aws''], pm_ptype = ''aws'', pm_provider = Some sample_provider,
      pm_fallback = None, pm_zoneid = ''z1'', pm_zonedomain = ''example.com''\<rparr>"

definition sample_state :: state where
  "sample_state =
     \<lparr>s_heap = (\<lambda>r. sample_entry (sample_object ''e1'' DNSEntryKind 10)),
      s_nextref = 1,
      s_entries = [(''e1'', 0)],
      s_dnsnames = [''www.example.com'' \<mapsto> 0],
      s_zones = [''z1'' \<mapsto> sample_zone],
      s_outdated = Map.empty,
      s_blockingEntries = Map.empty,
      s_typeCodes = [''aws''],
      s_ownerIds = [''owner1''],
      s_startupTime = 900 * Second,
      s_calls = []\<rparr>"

definition sample_duplicate :: "string \<Rightarrow> Time \<Rightarrow> Entry" where
  "sample_duplicate name created =
     (sample_entry (sample_object name DNSEntryKind created))\<lparr>en_duplicate := True\<rparr>"

text \<open>The name of \<open>e1\<close> is contested by the duplicates \<open>e2\<close> and \<open>e3\<close>; \<open>e3\<close> is the earlier.\<close>

definition sample_contested :: "(string \<times> ref) list \<Rightarrow> state" where
  "sample_contested index =
     sample_state\<lparr>s_heap := (s_heap sample_state)
                      (1 := sample_duplicate ''e2'' 30, 2 := sample_duplicate ''e3'' 20),
                  s_nextref := 3,
                  s_entries := index\<rparr>"

definition sample_providers :: "string \<Rightarrow> providers" where
  "sample_providers zoneid =
     \<lparr>lookupProvider = (\<lambda>obj. (Some sample_provider, None, None)),
      getProviderZoneForName = (\<lambda>name p. Some (sample_zone\<lparr>z_Id := zoneid\<rparr>)),
      config_Enabled = [''aws'']\<rparr>"

text \<open>
  The environment in which the record set \<open>rs\<close> is observed, the one in which the update
  of the status to stale fails besides, and the state whose only entry is the lock \<open>e1\<close>.
\<close>

definition sample_observing :: "RecordSet \<Rightarrow> env" where
  "sample_observing rs = sample_env\<lparr>GetRecordSet_result := (\<lambda>z n t. Inr (Some rs))\<rparr>"


definition sample_locked :: state where
  "sample_locked =
     sample_state\<lparr>s_heap := (\<lambda>r. sample_entry (sample_object ''e1'' DNSLockKind 10))\<rparr>"

text \<open>
  A record whose value is the prefix of the lock id attribute and nothing more: it has
  no closing quote.
\<close>

definition sample_bare :: plainRecord where
  "sample_bare =
     \<lparr>pr_DNSName = ''www.example.com'', pr_Type = ''TXT'', pr_TTL = 60,
      pr_Value = newAttrKeyPrefix (ATTR_LOCKID sample_deps)\<rparr>"

section \<open>Round trip of the record-set conversions\<close>

lemma wrap_id:
  assumes "0 < w" "- (2 ^ (w - 1)) \<le> x" "x < 2 ^ (w - 1)"
  shows "wrap w x = x"
proof -
  have p: "(2::int) ^ w = 2 * 2 ^ (w - 1)"
    using assms(1) by (cases w) simp_all
  have "0 \<le> x + 2 ^ (w - 1)" and "x + 2 ^ (w - 1) < 2 ^ w"
    using assms(2,3) p by linarith+
  then have "(x + 2 ^ (w - 1)) mod 2 ^ w = x + 2 ^ (w - 1)"
    by simp
  then show ?thesis
    by (simp add: wrap_def)
qed

lemma intSize_pos: "0 < intSize a"
  by (cases a) simp_all

lemma intSize_le_64: "(2::int) ^ (intSize a - 1) \<le> 2 ^ 63"
  by (cases a) simp_all

lemma go_int64_go_int:
  assumes "- (2 ^ (intSize a - 1)) \<le> x" "x < 2 ^ (intSize a - 1)"
  shows "go_int64 (go_int a x) = x"
proof -
  have g: "go_int a x = x"
    unfolding go_int_def using intSize_pos assms by (rule wrap_id)
  have "- (2 ^ 63) \<le> x" "x < 2 ^ 63"
    using assms intSize_le_64 [of a] by linarith+
  then have "wrap 64 x = x"
    by (intro wrap_id) simp_all
  with g show ?thesis
    by (simp add: go_int64_def wrap64_def)
qed

text \<open>
  Claim C10. For every record set \<open>rs\<close> of package \<open>dns\<close> with at least one record
  whose TTL fits in Go's \<open>int\<close>, and every DNS name \<open>d\<close>, converting to a plain record
  set and back returns \<open>d\<close> and a record set with the type, the TTL and the
  sequence of records of \<open>rs\<close>; and \<open>ToPlainRecordset\<close> of the empty record set
  returns the empty name and no record set.
\<close>

theorem record_set_round_trip:
  assumes "rs_Records rs \<noteq> []"
    and "- (2 ^ (intSize a - 1)) \<le> rs_TTL rs"
    and "rs_TTL rs < 2 ^ (intSize a - 1)"
  shows "ToPlainRecordset (FromPlainRecordSet a d rs)
           = (d, Some \<lparr>rs_Type = rs_Type rs, rs_TTL = rs_TTL rs, rs_Records = rs_Records rs\<rparr>)
         \<and> ToPlainRecordset [] = ([], None)"
proof -
  obtain r rest where recs: "rs_Records rs = r # rest"
    using assms(1) by (cases "rs_Records rs") auto
  have ttl: "go_int64 (go_int a (rs_TTL rs)) = rs_TTL rs"
    using assms(2,3) by (rule go_int64_go_int)
  have vals: "map (\<lambda>x. Record (Value x)) (rs_Records rs) = rs_Records rs"
    by (induction "rs_Records rs") (simp_all add: map_idI)
  have "ToPlainRecordset (FromPlainRecordSet a d rs)
          = (d, Some (NewRecordSet (rs_Type rs) (rs_TTL rs) (rs_Records rs)))"
    using recs ttl vals
    by (simp add: ToPlainRecordset_def FromPlainRecordSet_def comp_def)
  then show ?thesis
    by (simp add: NewRecordSet_def ToPlainRecordset_def)
qed

theorem record_set_round_trip_witness:
  "ToPlainRecordset (FromPlainRecordSet Arch32 ''lock.example.com''
       \<lparr>rs_Type = ''TXT'', rs_TTL = 60, rs_Records = [Record ''a'', Record ''b'']\<rparr>)
     = (''lock.example.com'',
        Some \<lparr>rs_Type = ''TXT'', rs_TTL = 60, rs_Records = [Record ''a'', Record ''b'']\<rparr>)
   \<and> ToPlainRecordset [] = ([], None)"
  using record_set_round_trip [of "\<lparr>rs_Type = ''TXT'', rs_TTL = 60,
      rs_Records = [Record ''a'', Record ''b'']\<rparr>" Arch32 "''lock.example.com''"]
  by simp

section \<open>Attributes parsed from a lookup\<close>

lemma Split_nonempty: "Split s c \<noteq> []"
  by (induction s) (auto split: list.splits)

lemma length_Split: "length (Split s c) = Suc (count_list s c)"
  by (induction s) (auto split: list.splits simp: Split_nonempty)

lemma Split_no_sep: "count_list s c = 0 \<Longrightarrow> Split s c = [s]"
  by (induction s) (auto split: list.splits if_splits)

lemma Split_one_sep:
  "count_list s c = 1 \<Longrightarrow> Split s c = [takeWhile (\<lambda>x. x \<noteq> c) s, tl (dropWhile (\<lambda>x. x \<noteq> c) s)]"
  by (induction s) (auto split: list.splits if_splits simp: Split_no_sep)

lemma parseRecord_kv:
  "parseRecord c (n, ts, attrs) r =
     (if isNamed r then n else Suc n,
      tsStep c ts (kv n r),
      if fst (kv n r) = ATTR_TIMESTAMP c then attrs else AList.update (fst (kv n r)) (snd (kv n r)) attrs)"
proof (cases "isNamed r")
  case True
  then have "Split (Trim r (CHR 0x22)) (CHR ''='') = [namedKey r, namedValue r]"
    by (simp add: isNamed_def namedKey_def namedValue_def Split_one_sep)
  with True show ?thesis
    by (auto simp: parseRecord_def kv_def tsStep_def Let_def split: prod.splits option.splits)
next
  case False
  then have "length (Split (Trim r (CHR 0x22)) (CHR ''='')) \<noteq> 2"
    by (simp add: isNamed_def length_Split)
  with False show ?thesis
    by (auto simp: parseRecord_def kv_def tsStep_def Let_def split: prod.splits option.splits)
qed

lemma length_keyvals: "length (keyvals n rs) = length rs"
  by (induction rs arbitrary: n) simp_all

lemma keyvals_nth:
  "i < length rs \<Longrightarrow> keyvals n rs ! i = kv (n + unnamedBefore rs i) (rs ! i)"
proof (induction rs arbitrary: n i)
  case Nil
  then show ?case by simp
next
  case (Cons r rs)
  show ?case
  proof (cases i)
    case 0
    then show ?thesis by (simp add: unnamedBefore_def)
  next
    case (Suc j)
    with Cons.prems have "j < length rs" by simp
    from Cons.IH [OF this] Suc show ?thesis
      by (simp add: unnamedBefore_def)
  qed
qed

lemma kv_keyAt: "kv (unnamedBefore rs i) (rs ! i) = (keyAt rs i, valueAt rs i)"
  by (simp add: kv_def keyAt_def valueAt_def)

lemma foldl_parseRecord:
  "\<exists>attrs'. foldl (parseRecord c) (n, ts, attrs) rs
       = (n + length (filter (\<lambda>r. \<not> isNamed r) rs), foldl (tsStep c) ts (keyvals n rs), attrs')
     \<and> (\<forall>k. map_of attrs' k =
            (if k = ATTR_TIMESTAMP c then map_of attrs k
             else (map_of attrs ++ map_of (rev (keyvals n rs))) k))"
proof (induction rs arbitrary: n ts attrs)
  case Nil
  then show ?case by simp
next
  case (Cons r rs)
  let ?n = "if isNamed r then n else Suc n"
  let ?ts = "tsStep c ts (kv n r)"
  let ?attrs = "if fst (kv n r) = ATTR_TIMESTAMP c then attrs
                else AList.update (fst (kv n r)) (snd (kv n r)) attrs"
  from Cons.IH [of ?n ?ts ?attrs] obtain attrs' where
    run: "foldl (parseRecord c) (?n, ?ts, ?attrs) rs
            = (?n + length (filter (\<lambda>r. \<not> isNamed r) rs), foldl (tsStep c) ?ts (keyvals ?n rs), attrs')"
    and look: "\<And>k. map_of attrs' k =
            (if k = ATTR_TIMESTAMP c then map_of ?attrs k
             else (map_of ?attrs ++ map_of (rev (keyvals ?n rs))) k)"
    by blast
  have step: "foldl (parseRecord c) (n, ts, attrs) (r # rs)
                = foldl (parseRecord c) (?n, ?ts, ?attrs) rs"
    by (simp only: foldl_Cons parseRecord_kv)
  have "map_of attrs' k =
            (if k = ATTR_TIMESTAMP c then map_of attrs k
             else (map_of attrs ++ map_of (rev (keyvals n (r # rs)))) k)" for k
    unfolding look [of k]
    by (cases "kv n r") (auto simp: update_conv' map_add_def split: option.splits)
  with step run show ?case
    by auto
qed

lemma map_of_rev_last:
  "i < length xs \<Longrightarrow> fst (xs ! i) = k
     \<Longrightarrow> (\<forall>j. i < j \<and> j < length xs \<longrightarrow> fst (xs ! j) \<noteq> k)
     \<Longrightarrow> map_of (rev xs) k = Some (snd (xs ! i))"
proof (induction xs rule: rev_induct)
  case Nil
  then show ?case by simp
next
  case (snoc x xs)
  show ?case
  proof (cases "i = length xs")
    case True
    with snoc.prems show ?thesis by (cases x) auto
  next
    case False
    with snoc.prems have i: "i < length xs" by simp
    from snoc.prems(3) [rule_format, of "length xs"] i have "fst ((xs @ [x]) ! length xs) \<noteq> k"
      by simp
    then have x: "fst x \<noteq> k" by simp
    have "\<forall>j. i < j \<and> j < length xs \<longrightarrow> fst (xs ! j) \<noteq> k"
    proof (intro allI impI)
      fix j assume j: "i < j \<and> j < length xs"
      with snoc.prems(3) have "fst ((xs @ [x]) ! j) \<noteq> k" by simp
      with j show "fst (xs ! j) \<noteq> k" by (simp add: nth_append)
    qed
    with snoc.IH i snoc.prems(2) have "map_of (rev xs) k = Some (snd (xs ! i))"
      by (simp add: nth_append)
    with x i show ?thesis by (cases x) (auto simp: nth_append)
  qed
qed

lemma tsStep_miss: "\<not> tsHit c p \<Longrightarrow> tsStep c t p = t"
  by (auto simp: tsStep_def tsHit_def)

lemma tsStep_hit: "tsHit c p \<Longrightarrow> tsStep c t p = time_Unix (fst (ParseInt (snd p)))"
  by (auto simp: tsStep_def tsHit_def)

lemma foldl_tsStep_last:
  "i < length xs \<Longrightarrow> tsHit c (xs ! i)
     \<Longrightarrow> (\<forall>j. i < j \<and> j < length xs \<longrightarrow> \<not> tsHit c (xs ! j))
     \<Longrightarrow> foldl (tsStep c) ts xs = time_Unix (fst (ParseInt (snd (xs ! i))))"
proof (induction xs rule: rev_induct)
  case Nil
  then show ?case by simp
next
  case (snoc x xs)
  show ?case
  proof (cases "i = length xs")
    case True
    with snoc.prems show ?thesis by (simp add: tsStep_hit)
  next
    case False
    with snoc.prems have i: "i < length xs" by simp
    from snoc.prems(3) [rule_format, of "length xs"] i have "\<not> tsHit c ((xs @ [x]) ! length xs)"
      by simp
    then have x: "\<not> tsHit c x" by simp
    have "\<forall>j. i < j \<and> j < length xs \<longrightarrow> \<not> tsHit c (xs ! j)"
    proof (intro allI impI)
      fix j assume j: "i < j \<and> j < length xs"
      with snoc.prems(3) have "\<not> tsHit c ((xs @ [x]) ! j)" by simp
      with j show "\<not> tsHit c (xs ! j)" by (simp add: nth_append)
    qed
    with snoc.IH i snoc.prems(2) have "foldl (tsStep c) ts xs = time_Unix (fst (ParseInt (snd (xs ! i))))"
      by (simp add: nth_append)
    with x i show ?thesis by (simp add: nth_append tsStep_miss)
  qed
qed

text \<open>
  Claim C9, as amended. When \<open>UpdateLockStates\<close> parses the strings of a successful
  lookup, a string (trimmed of its quotes) splits into two fields exactly when it
  holds exactly one \<open>=\<close>. The string at position \<open>i\<close> is stored as attribute
  \<open>keyAt = valueAt\<close> unless its key is the timestamp key or a later string has the same
  key; a string whose key is the timestamp key and whose value parses sets the
  timestamp to that many Unix seconds unless a later one does, and nothing is stored
  under the timestamp key. A string that is not named, with no \<open>=\<close> or with more than
  one, gets the key \<open>_n\<close> where \<open>n\<close> counts all strings that are not named before
  it, from 0 in record order.
\<close>

theorem parse_records_positional:
  assumes run: "parseRecords c records = (unnamed, ts, attrs)"
    and i: "i < length records"
  shows "(length (Split (Trim (records ! i) (CHR 0x22)) (CHR ''='')) = 2 \<longleftrightarrow> isNamed (records ! i))
    \<and> (keyAt records i \<noteq> ATTR_TIMESTAMP c
         \<and> (\<forall>j. i < j \<and> j < length records \<longrightarrow> keyAt records j \<noteq> keyAt records i)
        \<longrightarrow> map_of attrs (keyAt records i) = Some (valueAt records i))
    \<and> (keyAt records i = ATTR_TIMESTAMP c \<and> snd (ParseInt (valueAt records i)) = None
         \<and> (\<forall>j. i < j \<and> j < length records
                \<longrightarrow> \<not> (keyAt records j = ATTR_TIMESTAMP c \<and> snd (ParseInt (valueAt records j)) = None))
        \<longrightarrow> ts = time_Unix (fst (ParseInt (valueAt records i))))
    \<and> map_of attrs (ATTR_TIMESTAMP c) = None
    \<and> unnamed = length (filter (\<lambda>r. \<not> isNamed r) records)"
proof -
  let ?xs = "keyvals 0 records"
  from foldl_parseRecord [of c 0 0 "[]" records] run
  have ts: "ts = foldl (tsStep c) 0 ?xs"
    and look: "\<And>k. map_of attrs k = (if k = ATTR_TIMESTAMP c then None else map_of (rev ?xs) k)"
    and cnt: "unnamed = length (filter (\<lambda>r. \<not> isNamed r) records)"
    by (auto simp: parseRecords_def)
  have nth: "?xs ! j = (keyAt records j, valueAt records j)" if "j < length records" for j
    using keyvals_nth [OF that, of 0] kv_keyAt [of records j] by simp
  have len: "length ?xs = length records"
    by (rule length_keyvals)
  have a: "length (Split (Trim (records ! i) (CHR 0x22)) (CHR ''='')) = 2 \<longleftrightarrow> isNamed (records ! i)"
    by (simp add: isNamed_def length_Split)
  have b: "map_of attrs (keyAt records i) = Some (valueAt records i)"
    if "keyAt records i \<noteq> ATTR_TIMESTAMP c"
      and "\<forall>j. i < j \<and> j < length records \<longrightarrow> keyAt records j \<noteq> keyAt records i"
  proof -
    have "map_of (rev ?xs) (keyAt records i) = Some (snd (?xs ! i))"
    proof (rule map_of_rev_last)
      show "i < length ?xs" using i len by simp
      show "fst (?xs ! i) = keyAt records i" using nth [OF i] by simp
      show "\<forall>j. i < j \<and> j < length ?xs \<longrightarrow> fst (?xs ! j) \<noteq> keyAt records i"
        using that(2) nth len by simp
    qed
    with that(1) look nth [OF i] show ?thesis by simp
  qed
  have d: "ts = time_Unix (fst (ParseInt (valueAt records i)))"
    if "keyAt records i = ATTR_TIMESTAMP c" and "snd (ParseInt (valueAt records i)) = None"
      and "\<forall>j. i < j \<and> j < length records
                \<longrightarrow> \<not> (keyAt records j = ATTR_TIMESTAMP c \<and> snd (ParseInt (valueAt records j)) = None)"
  proof -
    have "foldl (tsStep c) 0 ?xs = time_Unix (fst (ParseInt (snd (?xs ! i))))"
    proof (rule foldl_tsStep_last)
      show "i < length ?xs" using i len by simp
      show "tsHit c (?xs ! i)" using that(1,2) nth [OF i] by (simp add: tsHit_def)
      show "\<forall>j. i < j \<and> j < length ?xs \<longrightarrow> \<not> tsHit c (?xs ! j)"
        using that(3) nth len by (simp add: tsHit_def)
    qed
    with ts nth [OF i] show ?thesis by simp
  qed
  from a b d look cnt show ?thesis by simp
qed

text \<open>
  Five strings: the quoted \<open>owner=me\<close>, \<open>a=b=c\<close>, \<open>ts=100\<close>, \<open>x\<close> and \<open>owner=you\<close>. The
  string \<open>x\<close> is the second that is not named and is stored under \<open>_1\<close>; the timestamp
  is 100 Unix seconds.
\<close>

theorem parse_records_positional_witness:
  "map_of (snd (snd (parseRecords sample_deps
       [[CHR 0x22] @ ''owner=me'' @ [CHR 0x22], ''a=b=c'', ''ts=100'', ''x'', ''owner=you''])))
       ''_1'' = Some ''x''
   \<and> fst (snd (parseRecords sample_deps
       [[CHR 0x22] @ ''owner=me'' @ [CHR 0x22], ''a=b=c'', ''ts=100'', ''x'', ''owner=you'']))
       = time_Unix 100"
proof -
  let ?R = "[[CHR 0x22] @ ''owner=me'' @ [CHR 0x22], ''a=b=c'', ''ts=100'', ''x'', ''owner=you'']"
  have run: "parseRecords sample_deps ?R
     = (2, time_Unix 100, [(''owner'', ''you''), (''_0'', ''a=b=c''), (''_1'', ''x'')])"
    by (simp add: parseRecords_def parseRecord_def sample_deps_def Trim_def itoa.simps
          ParseInt_def ParseUint_def digitval_def maxUint64_def)
  have k3: "keyAt ?R 3 = ''_1''" "valueAt ?R 3 = ''x''"
    by (simp_all add: keyAt_def valueAt_def isNamed_def unnamedBefore_def Trim_def itoa.simps)
  have k4: "keyAt ?R 4 = ''owner''"
    by (simp add: keyAt_def isNamed_def namedKey_def Trim_def)
  have k2: "keyAt ?R 2 = ''ts''" "valueAt ?R 2 = ''100''"
    by (simp_all add: keyAt_def valueAt_def isNamed_def namedKey_def namedValue_def Trim_def)
  have p: "ParseInt ''100'' = (100, None)"
    by (simp add: ParseInt_def ParseUint_def digitval_def maxUint64_def)
  have ts: "ATTR_TIMESTAMP sample_deps = ''ts''" by (simp add: sample_deps_def)
  have later3: "\<forall>j. 3 < j \<and> j < length ?R \<longrightarrow> keyAt ?R j \<noteq> keyAt ?R 3"
  proof (intro allI impI)
    fix j assume "3 < j \<and> j < length ?R"
    then have "j = 4" by simp
    with k3 k4 show "keyAt ?R j \<noteq> keyAt ?R 3" by simp
  qed
  have later2: "\<forall>j. 2 < j \<and> j < length ?R
       \<longrightarrow> \<not> (keyAt ?R j = ATTR_TIMESTAMP sample_deps \<and> snd (ParseInt (valueAt ?R j)) = None)"
  proof (intro allI impI)
    fix j assume "2 < j \<and> j < length ?R"
    then have "j = 3 \<or> j = 4" by auto
    with k3 k4 ts
    show "\<not> (keyAt ?R j = ATTR_TIMESTAMP sample_deps \<and> snd (ParseInt (valueAt ?R j)) = None)"
      by auto
  qed
  have i3: "(3::nat) < length ?R" and i2: "(2::nat) < length ?R" by simp_all
  from parse_records_positional [OF run i3] k3 ts later3
  have a: "map_of [(''owner'', ''you''), (''_0'', ''a=b=c''), (''_1'', ''x'')] ''_1'' = Some ''x''"
    by simp
  from parse_records_positional [OF run i2] k2 ts later2 p
  have b: "time_Unix 100 = time_Unix (fst (ParseInt ''100''))"
    by simp
  from a b p show ?thesis
    by (simp only: run snd_conv fst_conv)
qed

text \<open>
  Claim C9 as stated fails on the strings \<open>a=b=c\<close> and \<open>x\<close>. No string without an
  \<open>=\<close> comes before \<open>x\<close>, so the claim gives \<open>x\<close> the key \<open>_0\<close>; the code counts
  \<open>a=b=c\<close> too, files it under \<open>_0\<close>, and gives \<open>x\<close> the key \<open>_1\<close>.
\<close>

theorem unnamed_counter_counterexample:
  "map_of (snd (snd (parseRecords sample_deps [''a=b=c'', ''x'']))) ''_0'' = Some ''a=b=c''
   \<and> map_of (snd (snd (parseRecords sample_deps [''a=b=c'', ''x'']))) ''_1'' = Some ''x''
   \<and> map_of (snd (snd (parseRecords sample_deps [''a=b=c'', ''x'']))) ''_0'' \<noteq> Some ''x''
   \<and> count_list ''x'' (CHR ''='') = 0
   \<and> count_list ''a=b=c'' (CHR ''='') = 2"
  by (simp add: parseRecords_def parseRecord_def sample_deps_def Trim_def itoa.simps)

section \<open>Lock states after a failed lookup\<close>

lemma wrap64_range: "- (2 ^ 63) \<le> wrap64 x \<and> wrap64 x < 2 ^ 63"
proof -
  have "0 \<le> (x + 2 ^ 63) mod (2 ^ 64 :: int)" and "(x + 2 ^ 63) mod (2 ^ 64 :: int) < 2 ^ 64"
    by simp_all
  then show ?thesis
    by (simp add: wrap64_def wrap_def)
qed

lemma wrap64_id: "- (2 ^ 63) \<le> x \<Longrightarrow> x < 2 ^ 63 \<Longrightarrow> wrap64 x = x"
  unfolding wrap64_def by (rule wrap_id) simp_all

lemma wrap64_even: "even x \<Longrightarrow> even (wrap64 x)"
proof -
  assume "even x"
  then have "even (x + 2 ^ 63)" by simp
  moreover have "(2::int) dvd 2 ^ 64" by simp
  ultimately have "even ((x + 2 ^ 63) mod (2 ^ 64 :: int))"
    by (simp only: dvd_mod_iff)
  then show ?thesis
    by (simp add: wrap64_def wrap_def)
qed

lemma mul64_2_below_max: "mul64 x 2 < maxDuration"
proof -
  have e: "even (mul64 x 2)"
    unfolding mul64_def by (rule wrap64_even) simp
  have "mul64 x 2 < 2 ^ 63"
    using wrap64_range [of "x * 2"] by (simp add: mul64_def)
  moreover have "mul64 x 2 \<noteq> 2 ^ 63 - 1"
    using e by auto
  ultimately show ?thesis
    by (simp add: maxDuration_def)
qed

lemma ttl_threshold:
  assumes "0 \<le> T" and "2 * T * Second < now - ff"
  shows "mul64 (mul64 T Second) 2 < time_Sub now ff"
proof (cases "now - ff \<le> maxDuration")
  case True
  define P where "P = T * Second"
  have P0: "0 \<le> P"
    using assms(1) by (simp add: P_def Second_def)
  have P2: "2 * P < now - ff"
    using assms(2) by (simp add: P_def mult.assoc)
  from True P2 have b: "2 * P < 2 ^ 63"
    by (simp add: maxDuration_def)
  with P0 have "- (2 ^ 63) \<le> P" "P < 2 ^ 63"
    by simp_all
  then have m1: "mul64 T Second = P"
    unfolding mul64_def P_def by (rule wrap64_id)
  from P0 b have "- (2 ^ 63) \<le> P * 2" "P * 2 < 2 ^ 63"
    by simp_all
  then have m2: "mul64 P 2 = P * 2"
    unfolding mul64_def by (rule wrap64_id)
  from P0 P2 have "0 \<le> now - ff" by simp
  with True have "time_Sub now ff = now - ff"
    by (simp add: time_Sub_def Let_def minDuration_def)
  with m1 m2 P2 show ?thesis by simp
next
  case False
  then have "time_Sub now ff = maxDuration"
    by (simp add: time_Sub_def Let_def)
  then show ?thesis
    using mul64_2_below_max by simp
qed

lemma ModifyStatus_name: "ModifyStatus ev obj m = (err, obj', calls) \<Longrightarrow> ob_ObjectName obj' = ob_ObjectName obj"
  by (auto simp: ModifyStatus_def split: if_splits option.splits)

lemma ModifyStatus_calls:
  "ModifyStatus ev obj m = (err, obj', calls) \<Longrightarrow> \<forall>x \<in> set calls. \<exists>n s. x = Call_ModifyStatus n s"
  by (auto simp: ModifyStatus_def split: if_splits option.splits)

lemma updateLockState_effect:
  assumes "lookupLock c ev startupTime e = (u, ff, ts, attrs)"
  shows "en_updateRequired (fst (updateLockState c ev startupTime e)) = (u \<or> en_updateRequired e)
     \<and> (Call_Enqueue (ObjectName e) \<in> set (snd (updateLockState c ev startupTime e)) \<longleftrightarrow> u)"
proof -
  obtain err obj calls where m: "ModifyStatus ev (Object_of e)
                  (lockStateModifier ts ff attrs (ob_Status (Object_of e))) = (err, obj, calls)"
    by (cases "ModifyStatus ev (Object_of e)
                  (lockStateModifier ts ff attrs (ob_Status (Object_of e)))") auto
  from ModifyStatus_name [OF m] have n: "ob_ObjectName obj = ObjectName e"
    by (simp add: ObjectName_def)
  from ModifyStatus_calls [OF m] have nc: "Call_Enqueue (ObjectName e) \<notin> set calls"
    by auto
  show ?thesis
    using assms m n nc by (auto simp: updateLockState_def setObject_def Let_def)
qed

text \<open>
  Claim C8, as amended. In \<open>UpdateLockStates\<close>, for a lock entry whose TXT lookup
  fails: if its recorded \<open>FirstFailedDNSLookup\<close> is after the startup time of the
  controller and lies more than twice the TTL (a TTL that is not negative) in the
  past, the flag \<open>updateRequired\<close> of the entry is set and the entry is enqueued again;
  if there is no recorded \<open>FirstFailedDNSLookup\<close>, or it is not after the startup time,
  the entry is enqueued, and its flag set, exactly when the state of the status is not
  ready (a flag that was set before stays set).
\<close>

theorem lookup_failure_update_required:
  assumes fail: "LookupTXT_result ev (DNSName e) = Inl err"
  shows "(\<forall>ff. st_FirstFailedDNSLookup (ob_Status (Object_of e)) = Some ff
               \<and> time_After ff startupTime
               \<and> 0 \<le> ob_TTL (Object_of e)
               \<and> 2 * ob_TTL (Object_of e) * Second < time_Now ev - ff
           \<longrightarrow> en_updateRequired (fst (updateLockState c ev startupTime e))
               \<and> Call_Enqueue (ObjectName e) \<in> set (snd (updateLockState c ev startupTime e)))
       \<and> (st_FirstFailedDNSLookup (ob_Status (Object_of e)) = None
            \<or> (\<exists>ff. st_FirstFailedDNSLookup (ob_Status (Object_of e)) = Some ff
                     \<and> \<not> time_After ff startupTime)
           \<longrightarrow> en_updateRequired (fst (updateLockState c ev startupTime e))
                 = (st_State (ob_Status (Object_of e)) \<noteq> STATE_READY \<or> en_updateRequired e)
               \<and> (Call_Enqueue (ObjectName e) \<in> set (snd (updateLockState c ev startupTime e))
                    \<longleftrightarrow> st_State (ob_Status (Object_of e)) \<noteq> STATE_READY))"
proof -
  obtain u ff ts attrs where l: "lookupLock c ev startupTime e = (u, ff, ts, attrs)"
    by (cases "lookupLock c ev startupTime e") auto
  note eff = updateLockState_effect [OF l]
  have a: "u" if "st_FirstFailedDNSLookup (ob_Status (Object_of e)) = Some f"
      and "time_After f startupTime" and "0 \<le> ob_TTL (Object_of e)"
      and "2 * ob_TTL (Object_of e) * Second < time_Now ev - f" for f
    using l fail that ttl_threshold [OF that(3,4)]
    by (simp add: lookupLock_def Let_def)
  have b: "u = (st_State (ob_Status (Object_of e)) \<noteq> STATE_READY)"
    if "st_FirstFailedDNSLookup (ob_Status (Object_of e)) = None
            \<or> (\<exists>ff. st_FirstFailedDNSLookup (ob_Status (Object_of e)) = Some ff
                     \<and> \<not> time_After ff startupTime)"
    using l fail that by (auto simp: lookupLock_def Let_def)
  from a b eff show ?thesis by blast
qed

text \<open>
  Scenario S6: a lock with a TTL of 60 seconds whose lookup has failed since second
  1000, after the startup at second 900, is looked up again at second 1130: it is
  flagged and enqueued. A lock in state ready whose lookup fails for the first time
  is not flagged.
\<close>

theorem lookup_failure_update_required_witness:
  "en_updateRequired (fst (updateLockState sample_deps sample_env (900 * Second)
      ((sample_entry ((sample_object ''lockA'' DNSLockKind 10)
          \<lparr>ob_Status := sample_status\<lparr>st_FirstFailedDNSLookup := Some (1000 * Second)\<rparr>\<rparr>))
        \<lparr>en_updateRequired := False\<rparr>)))
   \<and> Call_Enqueue ''lockA'' \<in> set (snd (updateLockState sample_deps sample_env (900 * Second)
      ((sample_entry ((sample_object ''lockA'' DNSLockKind 10)
          \<lparr>ob_Status := sample_status\<lparr>st_FirstFailedDNSLookup := Some (1000 * Second)\<rparr>\<rparr>))
        \<lparr>en_updateRequired := False\<rparr>)))
   \<and> \<not> en_updateRequired (fst (updateLockState sample_deps sample_env (900 * Second)
      ((sample_entry ((sample_object ''lockA'' DNSLockKind 10)
          \<lparr>ob_Status := sample_status\<lparr>st_State := STATE_READY\<rparr>\<rparr>))
        \<lparr>en_updateRequired := False\<rparr>)))"
proof -
  let ?e1 = "(sample_entry ((sample_object ''lockA'' DNSLockKind 10)
          \<lparr>ob_Status := sample_status\<lparr>st_FirstFailedDNSLookup := Some (1000 * Second)\<rparr>\<rparr>))
        \<lparr>en_updateRequired := False\<rparr>"
  let ?e2 = "(sample_entry ((sample_object ''lockA'' DNSLockKind 10)
          \<lparr>ob_Status := sample_status\<lparr>st_State := STATE_READY\<rparr>\<rparr>))
        \<lparr>en_updateRequired := False\<rparr>"
  have f1: "LookupTXT_result sample_env (DNSName ?e1) = Inl (LookupError ''no such host'')"
    and f2: "LookupTXT_result sample_env (DNSName ?e2) = Inl (LookupError ''no such host'')"
    by (simp_all add: sample_env_def)
  have h1: "st_FirstFailedDNSLookup (ob_Status (Object_of ?e1)) = Some (1000 * Second)
            \<and> time_After (1000 * Second) (900 * Second)
            \<and> 0 \<le> ob_TTL (Object_of ?e1)
            \<and> 2 * ob_TTL (Object_of ?e1) * Second < time_Now sample_env - 1000 * Second"
    by (simp add: Object_of_def sample_entry_def sample_version_def sample_object_def
          sample_status_def sample_env_def time_After_def Second_def)
  have h2: "st_FirstFailedDNSLookup (ob_Status (Object_of ?e2)) = None"
    "st_State (ob_Status (Object_of ?e2)) = STATE_READY" "\<not> en_updateRequired ?e2"
    "ObjectName ?e1 = ''lockA''"
    by (simp_all add: Object_of_def ObjectName_def sample_entry_def sample_version_def
          sample_object_def sample_status_def)
  from lookup_failure_update_required [OF f1, of "900 * Second" sample_deps] h1 h2(4)
  have a: "en_updateRequired (fst (updateLockState sample_deps sample_env (900 * Second) ?e1))
     \<and> Call_Enqueue ''lockA'' \<in> set (snd (updateLockState sample_deps sample_env (900 * Second) ?e1))"
    by metis
  from lookup_failure_update_required [OF f2, of "900 * Second" sample_deps] h2
  have b: "\<not> en_updateRequired (fst (updateLockState sample_deps sample_env (900 * Second) ?e2))"
    by simp
  from a b show ?thesis by simp
qed

text \<open>
  Claim C8 as stated fails when the recorded first failure is not after the startup
  time: first failure at second 800, startup at second 900, lookup at second 1130 with
  a TTL of 60 seconds and the status ready. The recorded failure lies more than twice
  the TTL in the past, and the entry is neither flagged nor enqueued.
\<close>

theorem failure_before_startup_counterexample:
  "st_FirstFailedDNSLookup (ob_Status (Object_of
      ((sample_entry ((sample_object ''lockA'' DNSLockKind 10)
          \<lparr>ob_Status := sample_status\<lparr>st_FirstFailedDNSLookup := Some (800 * Second),
                                        st_State := STATE_READY\<rparr>\<rparr>))
        \<lparr>en_updateRequired := False\<rparr>))) = Some (800 * Second)
   \<and> 2 * 60 * Second < time_Now sample_env - 800 * Second
   \<and> \<not> en_updateRequired (fst (updateLockState sample_deps sample_env (900 * Second)
      ((sample_entry ((sample_object ''lockA'' DNSLockKind 10)
          \<lparr>ob_Status := sample_status\<lparr>st_FirstFailedDNSLookup := Some (800 * Second),
                                        st_State := STATE_READY\<rparr>\<rparr>))
        \<lparr>en_updateRequired := False\<rparr>)))
   \<and> Call_Enqueue ''lockA'' \<notin> set (snd (updateLockState sample_deps sample_env (900 * Second)
      ((sample_entry ((sample_object ''lockA'' DNSLockKind 10)
          \<lparr>ob_Status := sample_status\<lparr>st_FirstFailedDNSLookup := Some (800 * Second),
                                        st_State := STATE_READY\<rparr>\<rparr>))
        \<lparr>en_updateRequired := False\<rparr>)))"
  by (simp add: updateLockState_def lookupLock_def ModifyStatus_def lockStateModifier_def
        AssureTimestamp_def EqualAttrs_def setObject_def Object_of_def DNSName_def
        sample_entry_def sample_version_def sample_object_def sample_status_def sample_env_def
        time_After_def time_IsZero_def time_Equal_def Second_def Let_def)

section \<open>Writing and deleting a lock\<close>













text \<open>
  The reading of the lock id panics on the record \<open>sample_bare\<close>, whose value is the
  prefix of the attribute and nothing more, although the timestamp 100 of the record
  set is later than the timestamp 50 of the lock: the function does not return.
\<close>

lemma checkAndUpdateLock_bare_prefix:
  "checkAndUpdateLock sample_deps (sample_observing [sample_bare, sample_record ''ts=100''])
      Arch64 [''z1'' \<mapsto> sample_zone] (sample_entry (sample_object ''A'' DNSLockKind 10))
      sample_premise
    = Inl SliceBoundsOutOfRange"
  by (simp add: checkAndUpdateLock_def Let_def DNSName_def ZoneId_def StringValue_def
        Object_of_def sample_entry_def sample_version_def sample_object_def sample_status_def
        sample_deps_def sample_premise_def sample_provider_def sample_observing_def
        sample_bare_def newAttrKeyPrefix_def HasPrefix_def)









section \<open>Cleaning up an entry\<close>

lemma Before_irrefl: "\<not> Before a a"
  by (simp add: Before_def time_Equal_def)

lemma Before_trans: "Before a b \<Longrightarrow> Before b c \<Longrightarrow> Before a c"
  by (auto simp: Before_def time_Equal_def time_Before_def split: if_splits)

lemma Before_asym: "Before a b \<Longrightarrow> \<not> Before b a"
  by (auto simp: Before_def time_Equal_def time_Before_def split: if_splits)

lemma Before_negtrans: "\<not> Before a b \<Longrightarrow> \<not> Before b c \<Longrightarrow> \<not> Before a c"
  by (auto simp: Before_def time_Equal_def time_Before_def split: if_splits)

lemma Before_total: "ObjectName a \<noteq> ObjectName b \<Longrightarrow> Before a b \<or> Before b a"
  by (auto simp: Before_def time_Equal_def time_Before_def split: if_splits)

lemma scan_Cons:
  "scanDuplicates h dn (a # as) found =
     scanDuplicates h dn as
       (if isClaimant h dn a then
          (case found of
             None \<Rightarrow> Some a
           | Some f \<Rightarrow> if Before (h a) (h f) then Some a else Some f)
        else found)"
  by (simp add: isClaimant_def)

lemma scan_inv:
  "(\<forall>m. scanDuplicates h dn xs found = Some m \<longrightarrow>
        m \<in> set (filter (isClaimant h dn) xs) \<union> set_option found
      \<and> (\<forall>a \<in> set (filter (isClaimant h dn) xs) \<union> set_option found.
            \<not> Before (h a) (h m)))
   \<and> (scanDuplicates h dn xs found = None \<longleftrightarrow>
        found = None \<and> filter (isClaimant h dn) xs = [])"
proof (induction xs arbitrary: found)
  case Nil
  then show ?case by (auto simp: Before_irrefl)
next
  case (Cons x xs)
  let ?cand = "isClaimant h dn"
  show ?case
  proof (cases "?cand x")
    case False
    with Cons.IH [of found] show ?thesis by (simp add: scan_Cons del: scanDuplicates.simps)
  next
    case True
    show ?thesis
    proof (cases found)
      case None
      with True Cons.IH [of "Some x"] show ?thesis by (simp add: scan_Cons del: scanDuplicates.simps)
    next
      case (Some f)
      show ?thesis
      proof (cases "Before (h x) (h f)")
        case bf: True
        have step: "scanDuplicates h dn (x # xs) found = scanDuplicates h dn xs (Some x)"
          using True Some bf by (simp add: scan_Cons del: scanDuplicates.simps)
        from Cons.IH [of "Some x"] have
          ih: "\<And>m. scanDuplicates h dn xs (Some x) = Some m \<Longrightarrow>
                 m \<in> set (filter ?cand xs) \<union> {x}
               \<and> (\<forall>a \<in> set (filter ?cand xs) \<union> {x}. \<not> Before (h a) (h m))"
          and nn: "scanDuplicates h dn xs (Some x) \<noteq> None"
          by auto
        have "m \<in> set (filter ?cand (x # xs)) \<union> {f}
               \<and> (\<forall>a \<in> set (filter ?cand (x # xs)) \<union> {f}. \<not> Before (h a) (h m))"
          if r: "scanDuplicates h dn xs (Some x) = Some m" for m
        proof -
          from ih [OF r] have mem: "m \<in> set (filter ?cand xs) \<union> {x}"
            and mn: "\<forall>a \<in> set (filter ?cand xs) \<union> {x}. \<not> Before (h a) (h m)" by auto
          from mn have "\<not> Before (h x) (h m)" by simp
          with bf have "\<not> Before (h f) (h m)" using Before_trans by blast
          with mem mn True show ?thesis by auto
        qed
        with step nn Some show ?thesis by auto
      next
        case nbf: False
        have step: "scanDuplicates h dn (x # xs) found = scanDuplicates h dn xs (Some f)"
          using True Some nbf by (simp add: scan_Cons del: scanDuplicates.simps)
        from Cons.IH [of "Some f"] have
          ih: "\<And>m. scanDuplicates h dn xs (Some f) = Some m \<Longrightarrow>
                 m \<in> set (filter ?cand xs) \<union> {f}
               \<and> (\<forall>a \<in> set (filter ?cand xs) \<union> {f}. \<not> Before (h a) (h m))"
          and nn: "scanDuplicates h dn xs (Some f) \<noteq> None"
          by auto
        have "m \<in> set (filter ?cand (x # xs)) \<union> {f}
               \<and> (\<forall>a \<in> set (filter ?cand (x # xs)) \<union> {f}. \<not> Before (h a) (h m))"
          if r: "scanDuplicates h dn xs (Some f) = Some m" for m
        proof -
          from ih [OF r] have mem: "m \<in> set (filter ?cand xs) \<union> {f}"
            and mn: "\<forall>a \<in> set (filter ?cand xs) \<union> {f}. \<not> Before (h a) (h m)" by auto
          from mn have "\<not> Before (h f) (h m)" by simp
          with nbf have "\<not> Before (h x) (h m)" using Before_negtrans by blast
          with mem mn True show ?thesis by auto
        qed
        with step nn Some show ?thesis by auto
      qed
    qed
  qed
qed

lemma scan_None:
  "scanDuplicates h dn xs None = None \<longleftrightarrow> filter (isClaimant h dn) xs = []"
  using scan_inv [of h dn xs None] by simp

lemma scan_Some:
  assumes "scanDuplicates h dn xs None = Some m"
  shows "m \<in> set (filter (isClaimant h dn) xs)"
    and "\<forall>a \<in> set (filter (isClaimant h dn) xs). \<not> Before (h a) (h m)"
  using scan_inv [of h dn xs None] assms by auto

lemma set_Entries_Delete:
  assumes "distinct (map fst es)"
  shows "set (Entries_Delete es name e)
           = (if (name, e) \<in> set es then {p \<in> set es. fst p \<noteq> name} else set es)"
  using assms by (auto simp: Entries_Delete_def AList.delete_eq)

lemma indexed_ref_names:
  assumes wf: "indexed s"
    and a: "a \<in> snd ` set (s_entries s)" and b: "b \<in> snd ` set (s_entries s)"
    and ne: "a \<noteq> b"
  shows "ObjectName (s_heap s a) \<noteq> ObjectName (s_heap s b)"
proof
  assume eq: "ObjectName (s_heap s a) = ObjectName (s_heap s b)"
  from a obtain ka where ka: "(ka, a) \<in> set (s_entries s)" by auto
  from b obtain kb where kb: "(kb, b) \<in> set (s_entries s)" by auto
  from wf ka have "ObjectName (s_heap s a) = ka"
    by (auto simp: indexed_def list_all_iff)
  moreover from wf kb have "ObjectName (s_heap s b) = kb"
    by (auto simp: indexed_def list_all_iff)
  ultimately have "ka = kb" using eq by simp
  with ka kb wf have "a = b"
    by (auto simp: indexed_def dest: eq_key_imp_eq_value)
  with ne show False by simp
qed

lemma set_claimants:
  assumes "indexed s"
  shows "set (claimants s e) =
     {a \<in> snd ` (if (ObjectName (s_heap s e), e) \<in> set (s_entries s)
                   then {p \<in> set (s_entries s). fst p \<noteq> ObjectName (s_heap s e)}
                   else set (s_entries s)). isClaimant (s_heap s) (DNSName (s_heap s e)) a}"
  using assms set_Entries_Delete [of "s_entries s" "ObjectName (s_heap s e)" e]
  by (simp add: claimants_def indexed_def)

lemma claimants_indexed: "indexed s \<Longrightarrow> set (claimants s e) \<subseteq> snd ` set (s_entries s)"
  by (auto simp: set_claimants split: if_splits)

lemma cleanupEntry_active:
  assumes active: "s_dnsnames s (DNSName (s_heap s e)) = Some e"
  shows "cleanupEntry s e =
     (case scanDuplicates (s_heap s) (DNSName (s_heap s e))
             (map snd (Entries_Delete (s_entries s) (ObjectName (s_heap s e)) e)) None of
        None \<Rightarrow> s\<lparr>s_entries := Entries_Delete (s_entries s) (ObjectName (s_heap s e)) e,
                   s_dnsnames := (s_dnsnames s)(DNSName (s_heap s e) := None)\<rparr>
      | Some f \<Rightarrow> s\<lparr>s_entries := Entries_Delete (s_entries s) (ObjectName (s_heap s e)) e,
                     s_dnsnames := (s_dnsnames s)(DNSName (s_heap s e) := None),
                     s_calls := s_calls s @ [Call_EnqueueKey (ClusterKey (s_heap s f))]\<rparr>)"
  using active
  by (simp add: cleanupEntry_def Let_def TriggerEntry_def emit_def split: option.splits)

lemma cleanupEntry_winner:
  assumes wf: "indexed s" and active: "s_dnsnames s (DNSName (s_heap s e)) = Some e"
  shows "s_dnsnames (cleanupEntry s e) (DNSName (s_heap s e)) = None
    \<and> (claimants s e = [] \<longrightarrow> s_calls (cleanupEntry s e) = s_calls s)
    \<and> (claimants s e \<noteq> [] \<longrightarrow>
         (\<exists>m \<in> set (claimants s e).
            (\<forall>a \<in> set (claimants s e). a \<noteq> m \<longrightarrow> Before (s_heap s m) (s_heap s a))
            \<and> s_calls (cleanupEntry s e) = s_calls s @ [Call_EnqueueKey (ClusterKey (s_heap s m))]))"
proof -
  let ?dn = "DNSName (s_heap s e)"
  let ?xs = "map snd (Entries_Delete (s_entries s) (ObjectName (s_heap s e)) e)"
  let ?r = "scanDuplicates (s_heap s) ?dn ?xs None"
  note ce = cleanupEntry_active [OF active]
  have cl: "claimants s e = filter (isClaimant (s_heap s) ?dn) ?xs"
    by (simp add: claimants_def)
  show ?thesis
  proof (cases ?r)
    case None
    then have "claimants s e = []" using scan_None [of "s_heap s" ?dn ?xs] cl by simp
    with ce None show ?thesis by simp
  next
    case (Some m)
    from scan_Some [OF Some] cl have mem: "m \<in> set (claimants s e)"
      and mn: "\<forall>a \<in> set (claimants s e). \<not> Before (s_heap s a) (s_heap s m)"
      by simp_all
    have "Before (s_heap s m) (s_heap s a)" if a: "a \<in> set (claimants s e)" and ne: "a \<noteq> m" for a
    proof -
      from a mem claimants_indexed [OF wf, of e]
      have "a \<in> snd ` set (s_entries s)" "m \<in> snd ` set (s_entries s)" by auto
      from indexed_ref_names [OF wf this ne]
      have "ObjectName (s_heap s a) \<noteq> ObjectName (s_heap s m)" .
      from Before_total [OF this] mn a show ?thesis by blast
    qed
    with mem ce Some show ?thesis by auto
  qed
qed

text \<open>
  Claim C2. For every entry \<open>e\<close> that is the active claim on its DNS name,
  \<open>cleanupEntry\<close> removes the name from \<open>dnsnames\<close>; when no entry that remains in the
  index is a duplicate with this name it triggers nothing, and otherwise it triggers
  exactly one entry, the claimant that is before every other claimant (earliest
  creation timestamp, object name as tie-break). The winner is a function of the set
  of entries: a state that holds the same pairs in its index in another order
  triggers the same entry.
\<close>

theorem cleanup_promotes_earliest:
  assumes wf: "indexed s" and active: "s_dnsnames s (DNSName (s_heap s e)) = Some e"
  shows "s_dnsnames (cleanupEntry s e) (DNSName (s_heap s e)) = None
    \<and> (claimants s e = [] \<longrightarrow> s_calls (cleanupEntry s e) = s_calls s)
    \<and> (claimants s e \<noteq> [] \<longrightarrow>
         (\<exists>m \<in> set (claimants s e).
            (\<forall>a \<in> set (claimants s e). a \<noteq> m \<longrightarrow> Before (s_heap s m) (s_heap s a))
            \<and> s_calls (cleanupEntry s e) = s_calls s @ [Call_EnqueueKey (ClusterKey (s_heap s m))]))
    \<and> (\<forall>s2. indexed s2 \<and> s_heap s2 = s_heap s \<and> s_dnsnames s2 = s_dnsnames s
              \<and> s_calls s2 = s_calls s \<and> set (s_entries s2) = set (s_entries s)
           \<longrightarrow> s_calls (cleanupEntry s2 e) = s_calls (cleanupEntry s e))"
proof -
  note w1 = cleanupEntry_winner [OF wf active]
  have det: "s_calls (cleanupEntry s2 e) = s_calls (cleanupEntry s e)"
    if h: "indexed s2 \<and> s_heap s2 = s_heap s \<and> s_dnsnames s2 = s_dnsnames s
              \<and> s_calls s2 = s_calls s \<and> set (s_entries s2) = set (s_entries s)" for s2
  proof -
    from h have wf2: "indexed s2" and hp: "s_heap s2 = s_heap s" and cs: "s_calls s2 = s_calls s"
      and es: "set (s_entries s2) = set (s_entries s)" by simp_all
    from h active have active2: "s_dnsnames s2 (DNSName (s_heap s2 e)) = Some e" by simp
    note w2 = cleanupEntry_winner [OF wf2 active2]
    have same: "set (claimants s2 e) = set (claimants s e)"
      by (simp add: set_claimants [OF wf] set_claimants [OF wf2] hp es)
    show ?thesis
    proof (cases "claimants s e = []")
      case True
      with same have "claimants s2 e = []" by simp
      with True w1 w2 cs show ?thesis by simp
    next
      case False
      with same have ne2: "claimants s2 e \<noteq> []" by auto
      from w1 False obtain m where m: "m \<in> set (claimants s e)"
        and mmin: "\<forall>a \<in> set (claimants s e). a \<noteq> m \<longrightarrow> Before (s_heap s m) (s_heap s a)"
        and mc: "s_calls (cleanupEntry s e) = s_calls s @ [Call_EnqueueKey (ClusterKey (s_heap s m))]"
        by blast
      from w2 ne2 obtain m2 where m2: "m2 \<in> set (claimants s2 e)"
        and m2min: "\<forall>a \<in> set (claimants s2 e). a \<noteq> m2 \<longrightarrow> Before (s_heap s2 m2) (s_heap s2 a)"
        and m2c: "s_calls (cleanupEntry s2 e) = s_calls s2 @ [Call_EnqueueKey (ClusterKey (s_heap s2 m2))]"
        by blast
      have "m2 = m"
      proof (rule ccontr)
        assume d: "m2 \<noteq> m"
        with mmin m2 same have "Before (s_heap s m) (s_heap s m2)" by auto
        moreover from d m2min m same hp have "Before (s_heap s m2) (s_heap s m)" by auto
        ultimately show False using Before_asym by blast
      qed
      with mc m2c hp cs show ?thesis by simp
    qed
  qed
  from w1 det show ?thesis by blast
qed

text \<open>
  Scenario S3: \<open>e1\<close> holds the name, \<open>e2\<close> (created at 30) and \<open>e3\<close> (created at 20) are
  duplicates. Cleaning up \<open>e1\<close> triggers \<open>e3\<close>, in whichever order the index is visited.
\<close>

theorem cleanup_promotes_earliest_witness:
  "s_calls (cleanupEntry (sample_contested [(''e1'', 0), (''e2'', 1), (''e3'', 2)]) 0)
     = [Call_EnqueueKey (DNSEntryKind, ''e3'')]
   \<and> s_dnsnames (cleanupEntry (sample_contested [(''e1'', 0), (''e2'', 1), (''e3'', 2)]) 0)
        ''www.example.com'' = None
   \<and> s_calls (cleanupEntry (sample_contested [(''e3'', 2), (''e1'', 0), (''e2'', 1)]) 0)
     = [Call_EnqueueKey (DNSEntryKind, ''e3'')]"
proof -
  let ?s = "sample_contested [(''e1'', 0), (''e2'', 1), (''e3'', 2)]"
  let ?s2 = "sample_contested [(''e3'', 2), (''e1'', 0), (''e2'', 1)]"
  have names: "DNSName (s_heap ?s 0) = ''www.example.com''"
    by (simp add: DNSName_def sample_contested_def sample_state_def sample_entry_def
          sample_version_def sample_object_def)
  have wf: "indexed ?s" and wf2: "indexed ?s2"
    by (simp_all add: indexed_def ObjectName_def Object_of_def sample_contested_def
          sample_state_def sample_duplicate_def sample_entry_def sample_version_def
          sample_object_def)
  have active: "s_dnsnames ?s (DNSName (s_heap ?s 0)) = Some 0"
    by (simp add: DNSName_def sample_contested_def sample_state_def sample_entry_def
          sample_version_def sample_object_def)
  have same: "s_heap ?s2 = s_heap ?s \<and> s_dnsnames ?s2 = s_dnsnames ?s
              \<and> s_calls ?s2 = s_calls ?s \<and> set (s_entries ?s2) = set (s_entries ?s)"
    by (auto simp: sample_contested_def)
  have run: "s_calls (cleanupEntry ?s 0) = [Call_EnqueueKey (DNSEntryKind, ''e3'')]"
    by (simp add: cleanupEntry_def Entries_Delete_def AList.delete_eq TriggerEntry_def emit_def
          Before_def time_Equal_def time_Before_def ClusterKey_def EntryKind_def Let_def
          DNSName_def ObjectName_def Object_of_def sample_contested_def sample_state_def
          sample_duplicate_def sample_entry_def sample_version_def sample_object_def)
  note inst = cleanup_promotes_earliest [OF wf active]
  from inst names have a: "s_dnsnames (cleanupEntry ?s 0) ''www.example.com'' = None"
    by simp
  from inst wf2 same have b: "s_calls (cleanupEntry ?s2 0) = s_calls (cleanupEntry ?s 0)"
    by blast
  from run a b show ?thesis by simp
qed

section \<open>Adding an entry version\<close>

lemmas sample_eval =
  AddEntryVersion_entry_def NewEntry_def Update_def ObjectName_def Object_of_def DNSName_def
  EntryKind_def ZoneId_def ClusterKey_def StringValue_def IsManaging_def IsActive_def
  Before_def time_Equal_def time_Before_def
  sample_deps_def sample_state_def sample_entry_def sample_version_def sample_object_def
  sample_status_def sample_env_def

lemma NewEntry_frame:
  "NewEntry c s v = (new, s2) \<Longrightarrow>
     en_version (s_heap s2 new) = v \<and> sameButHeap s s2 \<and> new = s_nextref s
     \<and> (\<forall>r. r \<noteq> new \<longrightarrow> s_heap s2 r = s_heap s r)"
  by (auto simp: NewEntry_def sameButHeap_def)

lemma Update_frame:
  "Update c s ol v = (new, s2) \<Longrightarrow>
     en_version (s_heap s2 new) = v \<and> sameButHeap s s2
     \<and> (\<forall>r. r \<noteq> new \<longrightarrow> s_heap s2 r = s_heap s r)
     \<and> (ol \<noteq> new \<longrightarrow> DNSName (s_heap s ol) \<noteq> ev_dnsname v)"
  by (auto simp: Update_def NewEntry_def sameButHeap_def split: if_splits)

lemma entry_frame:
  assumes "AddEntryVersion_entry c s v = (new, s2)"
  shows "en_version (s_heap s2 new) = v"
    and "sameButHeap s s2"
    and "\<forall>r. r \<noteq> new \<longrightarrow> s_heap s2 r = s_heap s r"
    and "\<forall>ol. map_of (s_entries s) (ob_ObjectName (ev_object v)) = Some ol \<and> ol \<noteq> new
            \<longrightarrow> DNSName (s_heap s ol) \<noteq> ev_dnsname v"
proof -
  let ?s1 = "s\<lparr>s_blockingEntries := (s_blockingEntries s)(ob_ObjectName (ev_object v) := None)\<rparr>"
  have sb: "sameButHeap s ?s1" and hp: "s_heap ?s1 = s_heap s" and en: "s_entries ?s1 = s_entries s"
    by (simp_all add: sameButHeap_def)
  show "en_version (s_heap s2 new) = v"
    using assms NewEntry_frame [of c ?s1 v new s2] Update_frame [of c ?s1 _ v new s2]
    by (auto simp: AddEntryVersion_entry_def Let_def split: option.splits)
  show "sameButHeap s s2"
    using assms NewEntry_frame [of c ?s1 v new s2] Update_frame [of c ?s1 _ v new s2] sb
    by (auto simp: AddEntryVersion_entry_def Let_def sameButHeap_def split: option.splits)
  show "\<forall>r. r \<noteq> new \<longrightarrow> s_heap s2 r = s_heap s r"
    using assms NewEntry_frame [of c ?s1 v new s2] Update_frame [of c ?s1 _ v new s2] hp
    by (auto simp: AddEntryVersion_entry_def Let_def split: option.splits)
  show "\<forall>ol. map_of (s_entries s) (ob_ObjectName (ev_object v)) = Some ol \<and> ol \<noteq> new
            \<longrightarrow> DNSName (s_heap s ol) \<noteq> ev_dnsname v"
    using assms Update_frame [of c ?s1 _ v new s2] hp en
    by (auto simp: AddEntryVersion_entry_def Let_def split: option.splits)
qed

lemma cleanupEntry_frame:
  "s_heap (cleanupEntry s e) = s_heap s"
  "s_zones (cleanupEntry s e) = s_zones s"
  "s_outdated (cleanupEntry s e) = s_outdated s"
  "s_typeCodes (cleanupEntry s e) = s_typeCodes s"
  "s_ownerIds (cleanupEntry s e) = s_ownerIds s"
  "k \<noteq> DNSName (s_heap s e) \<Longrightarrow> s_dnsnames (cleanupEntry s e) k = s_dnsnames s k"
  "filter isStatusUpdate (s_calls (cleanupEntry s e)) = filter isStatusUpdate (s_calls s)"
  "filter isFinalizerRemoval (s_calls (cleanupEntry s e)) = filter isFinalizerRemoval (s_calls s)"
  by (simp_all add: cleanupEntry_def Let_def TriggerEntry_def emit_def isStatusUpdate_def
        isFinalizerRemoval_def split: option.splits)

lemma IsManaging_cong: "s_typeCodes s' = s_typeCodes s \<Longrightarrow> IsManaging s' v = IsManaging s v"
  by (simp add: IsManaging_def split: option.splits)

lemma install_frame:
  assumes ver: "en_version (s_heap s2 new) = v"
    and same: "sameButHeap s s2"
    and olddn: "\<forall>ol. old = Some ol \<and> ol \<noteq> new \<longrightarrow> DNSName (s_heap s2 ol) \<noteq> ev_dnsname v"
    and fin: "ev_valid v \<and> IsManaging s v
                \<longrightarrow> SetFinalizer_result ev (ob_ObjectName (ev_object v)) = None"
  shows "\<exists>s5. AddEntryVersion_install ev s2 v old new = Inr s5
           \<and> s_heap s5 = s_heap s2
           \<and> s_dnsnames s5 (ev_dnsname v) = s_dnsnames s (ev_dnsname v)
           \<and> s_typeCodes s5 = s_typeCodes s
           \<and> filter isStatusUpdate (s_calls s5) = filter isStatusUpdate (s_calls s)"
proof -
  from same have tc: "s_typeCodes s2 = s_typeCodes s" and dn: "s_dnsnames s2 = s_dnsnames s"
    and cl: "s_calls s2 = s_calls s"
    by (simp_all add: sameButHeap_def)
  have man: "IsManaging s2 v = IsManaging s v"
    using tc by (rule IsManaging_cong)
  have nm: "ObjectName (s_heap s2 new) = ob_ObjectName (ev_object v)"
    using ver by (simp add: ObjectName_def Object_of_def)
  define s3 where "s3 = (if ev_valid v \<and> IsManaging s v
                         then emit s2 [Call_SetFinalizer (ob_ObjectName (ev_object v))] else s2)"
  define s4 where "s4 = s3\<lparr>s_entries := AList.update (ob_ObjectName (ev_object v)) new (s_entries s3)\<rparr>"
  have s4: "s_heap s4 = s_heap s2" "s_dnsnames s4 = s_dnsnames s" "s_typeCodes s4 = s_typeCodes s"
    "filter isStatusUpdate (s_calls s4) = filter isStatusUpdate (s_calls s)"
    by (simp_all add: s4_def s3_def emit_def tc dn cl isStatusUpdate_def)
  have inst: "AddEntryVersion_install ev s2 v old new =
      Inr (case old of
             None \<Rightarrow> s4
           | Some ol \<Rightarrow>
               if ol \<noteq> new then
                 (let s' = cleanupEntry s4 ol;
                      oz = en_activezone (s_heap s' ol)
                  in if oz \<noteq> [] \<and> oz \<noteq> ZoneId (s_heap s' new) \<and> s_zones s' oz \<noteq> None
                     then emit s' [Call_triggerHostedZone oz]
                     else s')
               else s4)"
  proof (cases "ev_valid v \<and> IsManaging s v")
    case True
    with fin have sf: "SetFinalizer_result ev (ob_ObjectName (ev_object v)) = None" by simp
    from True have nf: "(ev_valid (en_version (s_heap s2 new)) \<and> IsManaging s2 v) = True"
      by (simp add: ver man)
    from True have s3: "s3 = emit s2 [Call_SetFinalizer (ob_ObjectName (ev_object v))]"
      by (simp add: s3_def)
    show ?thesis
      unfolding AddEntryVersion_install_def Let_def nf s4_def s3 nm
      by (simp add: sf)
  next
    case False
    then have nf: "(ev_valid (en_version (s_heap s2 new)) \<and> IsManaging s2 v) = False"
      by (simp add: ver man)
    have s3: "s3 = s2"
      by (simp only: s3_def False if_False)
    show ?thesis
      unfolding AddEntryVersion_install_def Let_def nf s4_def s3 nm
      by simp
  qed
  show ?thesis
  proof (cases old)
    case None
    with inst s4 show ?thesis by simp
  next
    case (Some ol)
    show ?thesis
    proof (cases "ol = new")
      case True
      with inst Some s4 show ?thesis by simp
    next
      case False
      with olddn Some have "ev_dnsname v \<noteq> DNSName (s_heap s4 ol)"
        by (auto simp: s4)
      from cleanupEntry_frame(6) [OF this]
      have "s_dnsnames (cleanupEntry s4 ol) (ev_dnsname v) = s_dnsnames s (ev_dnsname v)"
        by (simp add: s4)
      with inst Some False s4 show ?thesis
        by (simp add: Let_def cleanupEntry_frame emit_def isStatusUpdate_def)
    qed
  qed
qed

lemma arbitrate_loses:
  assumes "ev_dnsname v \<noteq> []"
    and "s_dnsnames s (ev_dnsname v) = Some cur"
    and "ObjectName (s_heap s cur) \<noteq> ObjectName (s_heap s new)"
    and "Before (s_heap s cur) (s_heap s new)"
  shows "AddEntryVersion_arbitrate ev s v new status =
     (let s1 = s\<lparr>s_heap := (s_heap s)
                   (new := (s_heap s new)\<lparr>en_duplicate := True, en_modified := False\<rparr>)\<rparr>;
          upd = Call_UpdateStatus (ob_ObjectName (ev_object v)) STATE_ERROR
                  (AlreadyBusyForEntry (ev_dnsname v) (ObjectName (s_heap s cur)))
      in if IsSucceeded status then
           (Some new,
            (case UpdateStatus_result ev (ob_ObjectName (ev_object v)) STATE_ERROR
                    (AlreadyBusyForEntry (ev_dnsname v) (ObjectName (s_heap s cur))) of
               None \<Rightarrow> status | Some err \<Rightarrow> Delay err),
            emit s1 [upd])
         else (Some new, status, s1))"
  using assms
  by (simp add: AddEntryVersion_arbitrate_def Let_def DelayOnError_def split: option.splits)

lemma arbitrate_wins:
  assumes "ev_dnsname v \<noteq> []"
    and "s_dnsnames s (ev_dnsname v) = Some cur"
    and "ObjectName (s_heap s cur) \<noteq> ObjectName (s_heap s new)"
    and "\<not> Before (s_heap s cur) (s_heap s new)"
  shows "\<exists>s'. AddEntryVersion_arbitrate ev s v new status = (Some new, status, s')
            \<and> s_dnsnames s' (ev_dnsname v) = Some new
            \<and> s_heap s' = (s_heap s)(cur := (s_heap s cur)\<lparr>en_duplicate := True, en_modified := False\<rparr>)
            \<and> Call_triggerKey (ClusterKey (s_heap s cur)) \<in> set (s_calls s')"
  using assms
  by (simp add: AddEntryVersion_arbitrate_def Let_def emit_def)

text \<open>
  Claim C1, as amended. In \<open>AddEntryVersion\<close>, for a version that is not deleting, is
  managed by the local provider types, whose finalizer (when the version is valid) is
  set without error, and whose non-empty DNS name is held in \<open>dnsnames\<close> by an entry
  \<open>cur\<close> with another object name: if \<open>cur\<close> is before the new entry, the new entry is
  marked duplicate, its modified flag is cleared and \<open>cur\<close> keeps the name; the status
  update to error with the \<open>AlreadyBusyForEntry\<close> message citing the object name of
  \<open>cur\<close> is issued only if the status handed in is succeeded (the result is then that
  status, or a delay when the update fails), and otherwise no status update is issued
  and the status handed in is returned. If the new entry is before \<open>cur\<close>, \<open>cur\<close> is
  marked duplicate with modified cleared and is triggered again, and the new entry
  replaces it in \<open>dnsnames\<close>.
\<close>

theorem duplicate_arbitration:
  assumes nd: "\<not> ob_IsDeleting (ev_object v)"
    and ent: "AddEntryVersion_entry c s v = (new, s2)"
    and man: "IsManaging s v"
    and fin: "ev_valid v \<longrightarrow> SetFinalizer_result ev (ob_ObjectName (ev_object v)) = None"
    and dn: "ev_dnsname v \<noteq> []"
    and held: "s_dnsnames s (ev_dnsname v) = Some cur"
    and diff: "ObjectName (s_heap s2 cur) \<noteq> ob_ObjectName (ev_object v)"
    and res: "AddEntryVersion c ev s v status = (r, st, s')"
  shows "(Before (s_heap s2 cur) (s_heap s2 new) \<longrightarrow>
            r = Some new \<and> en_duplicate (s_heap s' new) \<and> \<not> en_modified (s_heap s' new)
            \<and> s_dnsnames s' (ev_dnsname v) = Some cur
            \<and> (if IsSucceeded status then
                  filter isStatusUpdate (s_calls s') =
                    filter isStatusUpdate (s_calls s)
                      @ [Call_UpdateStatus (ob_ObjectName (ev_object v)) STATE_ERROR
                           (AlreadyBusyForEntry (ev_dnsname v) (ObjectName (s_heap s2 cur)))]
                  \<and> st = (case UpdateStatus_result ev (ob_ObjectName (ev_object v)) STATE_ERROR
                               (AlreadyBusyForEntry (ev_dnsname v) (ObjectName (s_heap s2 cur))) of
                            None \<Rightarrow> status | Some err \<Rightarrow> Delay err)
                else filter isStatusUpdate (s_calls s') = filter isStatusUpdate (s_calls s)
                  \<and> st = status))
       \<and> (Before (s_heap s2 new) (s_heap s2 cur) \<longrightarrow>
            r = Some new \<and> st = status
            \<and> en_duplicate (s_heap s' cur) \<and> \<not> en_modified (s_heap s' cur)
            \<and> Call_triggerKey (ClusterKey (s_heap s2 cur)) \<in> set (s_calls s')
            \<and> s_dnsnames s' (ev_dnsname v) = Some new)"
proof -
  let ?old = "map_of (s_entries s) (ob_ObjectName (ev_object v))"
  note ef = entry_frame [OF ent]
  have olddn: "\<forall>ol. ?old = Some ol \<and> ol \<noteq> new \<longrightarrow> DNSName (s_heap s2 ol) \<noteq> ev_dnsname v"
    using ef(3,4) by auto
  from fin have fin': "ev_valid v \<and> IsManaging s v
                \<longrightarrow> SetFinalizer_result ev (ob_ObjectName (ev_object v)) = None" by simp
  from install_frame [OF ef(1) ef(2) olddn fin'] obtain s5 where
    inst: "AddEntryVersion_install ev s2 v ?old new = Inr s5"
    and hp: "s_heap s5 = s_heap s2"
    and dns: "s_dnsnames s5 (ev_dnsname v) = s_dnsnames s (ev_dnsname v)"
    and tc: "s_typeCodes s5 = s_typeCodes s"
    and su: "filter isStatusUpdate (s_calls s5) = filter isStatusUpdate (s_calls s)"
    by blast
  have man5: "IsManaging s5 v" using man IsManaging_cong [OF tc] by simp
  have run: "AddEntryVersion c ev s v status = AddEntryVersion_arbitrate ev s5 v new status"
    using nd ent inst man5 by (simp add: AddEntryVersion_def Let_def)
  have nm: "ObjectName (s_heap s2 new) = ob_ObjectName (ev_object v)"
    using ef(1) by (simp add: ObjectName_def Object_of_def)
  have held5: "s_dnsnames s5 (ev_dnsname v) = Some cur" using held dns by simp
  have diff5: "ObjectName (s_heap s5 cur) \<noteq> ObjectName (s_heap s5 new)"
    using diff nm hp by simp
  have a: "r = Some new \<and> en_duplicate (s_heap s' new) \<and> \<not> en_modified (s_heap s' new)
            \<and> s_dnsnames s' (ev_dnsname v) = Some cur
            \<and> (if IsSucceeded status then
                  filter isStatusUpdate (s_calls s') =
                    filter isStatusUpdate (s_calls s)
                      @ [Call_UpdateStatus (ob_ObjectName (ev_object v)) STATE_ERROR
                           (AlreadyBusyForEntry (ev_dnsname v) (ObjectName (s_heap s2 cur)))]
                  \<and> st = (case UpdateStatus_result ev (ob_ObjectName (ev_object v)) STATE_ERROR
                               (AlreadyBusyForEntry (ev_dnsname v) (ObjectName (s_heap s2 cur))) of
                            None \<Rightarrow> status | Some err \<Rightarrow> Delay err)
                else filter isStatusUpdate (s_calls s') = filter isStatusUpdate (s_calls s)
                  \<and> st = status)"
    if b: "Before (s_heap s2 cur) (s_heap s2 new)"
  proof -
    from b hp have b5: "Before (s_heap s5 cur) (s_heap s5 new)" by simp
    from arbitrate_loses [OF dn held5 diff5 b5, of ev status] run res hp su held5
    show ?thesis
      by (cases "IsSucceeded status") (auto simp: Let_def emit_def isStatusUpdate_def)
  qed
  have b: "r = Some new \<and> st = status
            \<and> en_duplicate (s_heap s' cur) \<and> \<not> en_modified (s_heap s' cur)
            \<and> Call_triggerKey (ClusterKey (s_heap s2 cur)) \<in> set (s_calls s')
            \<and> s_dnsnames s' (ev_dnsname v) = Some new"
    if nb: "Before (s_heap s2 new) (s_heap s2 cur)"
  proof -
    from nb hp have "\<not> Before (s_heap s5 cur) (s_heap s5 new)"
      using Before_asym by simp
    from arbitrate_wins [OF dn held5 diff5 this, of ev status] run res hp
    show ?thesis by auto
  qed
  from a b show ?thesis by blast
qed

text \<open>
  Scenario S2: \<open>e1\<close> (created at 10) holds the name. The later \<open>e2\<close> (created at 20) is
  marked duplicate and gets the status error "already busy for e1"; the earlier
  \<open>e0\<close> (created at 5) takes the name, and \<open>e1\<close> is marked duplicate and triggered.
\<close>

theorem duplicate_arbitration_witness:
  "fst (AddEntryVersion sample_deps sample_env sample_state
          (sample_version (sample_object ''e2'' DNSEntryKind 20)) Succeeded) = Some 1
   \<and> en_duplicate (s_heap (snd (snd (AddEntryVersion sample_deps sample_env sample_state
          (sample_version (sample_object ''e2'' DNSEntryKind 20)) Succeeded))) 1)
   \<and> \<not> en_modified (s_heap (snd (snd (AddEntryVersion sample_deps sample_env sample_state
          (sample_version (sample_object ''e2'' DNSEntryKind 20)) Succeeded))) 1)
   \<and> filter isStatusUpdate (s_calls (snd (snd (AddEntryVersion sample_deps sample_env sample_state
          (sample_version (sample_object ''e2'' DNSEntryKind 20)) Succeeded))))
       = [Call_UpdateStatus ''e2'' STATE_ERROR (AlreadyBusyForEntry ''www.example.com'' ''e1'')]
   \<and> en_duplicate (s_heap (snd (snd (AddEntryVersion sample_deps sample_env sample_state
          (sample_version (sample_object ''e0'' DNSEntryKind 5)) Succeeded))) 0)
   \<and> s_dnsnames (snd (snd (AddEntryVersion sample_deps sample_env sample_state
          (sample_version (sample_object ''e0'' DNSEntryKind 5)) Succeeded))) ''www.example.com''
       = Some 1
   \<and> Call_triggerKey (DNSEntryKind, ''e1'')
       \<in> set (s_calls (snd (snd (AddEntryVersion sample_deps sample_env sample_state
          (sample_version (sample_object ''e0'' DNSEntryKind 5)) Succeeded))))"
proof -
  let ?v = "sample_version (sample_object ''e2'' DNSEntryKind 20)"
  let ?w = "sample_version (sample_object ''e0'' DNSEntryKind 5)"
  let ?X = "AddEntryVersion_entry sample_deps sample_state ?v"
  let ?Y = "AddEntryVersion_entry sample_deps sample_state ?w"
  let ?R = "AddEntryVersion sample_deps sample_env sample_state ?v Succeeded"
  let ?Q = "AddEntryVersion sample_deps sample_env sample_state ?w Succeeded"
  have x: "fst ?X = 1" "ObjectName (s_heap (snd ?X) 0) = ''e1''"
    "Before (s_heap (snd ?X) 0) (s_heap (snd ?X) 1)"
    by (simp_all add: sample_eval)
  have y: "fst ?Y = 1" "ObjectName (s_heap (snd ?Y) 0) = ''e1''"
    "Before (s_heap (snd ?Y) 1) (s_heap (snd ?Y) 0)"
    "ClusterKey (s_heap (snd ?Y) 0) = (DNSEntryKind, ''e1'')"
    by (simp_all add: sample_eval)
  have ent: "?X = (1, snd ?X)" and ent': "?Y = (1, snd ?Y)"
    using x(1) y(1) by (simp_all add: prod_eq_iff)
  have hv: "\<not> ob_IsDeleting (ev_object ?v)" "IsManaging sample_state ?v"
    "ev_valid ?v \<longrightarrow> SetFinalizer_result sample_env (ob_ObjectName (ev_object ?v)) = None"
    "ev_dnsname ?v \<noteq> []" "s_dnsnames sample_state (ev_dnsname ?v) = Some 0"
    "ob_ObjectName (ev_object ?v) = ''e2''" "ev_dnsname ?v = ''www.example.com''"
    by (simp_all add: sample_eval)
  have hw: "\<not> ob_IsDeleting (ev_object ?w)" "IsManaging sample_state ?w"
    "ev_valid ?w \<longrightarrow> SetFinalizer_result sample_env (ob_ObjectName (ev_object ?w)) = None"
    "ev_dnsname ?w \<noteq> []" "s_dnsnames sample_state (ev_dnsname ?w) = Some 0"
    "ob_ObjectName (ev_object ?w) = ''e0''" "ev_dnsname ?w = ''www.example.com''"
    by (simp_all add: sample_eval)
  have ok: "IsSucceeded Succeeded" "s_calls sample_state = []"
    "UpdateStatus_result sample_env ''e2'' STATE_ERROR
       (AlreadyBusyForEntry ''www.example.com'' ''e1'') = None"
    by (simp_all add: IsSucceeded_def Succeeded_def sample_state_def sample_env_def)
  have d: "ObjectName (s_heap (snd ?X) 0) \<noteq> ob_ObjectName (ev_object ?v)"
    using x(2) hv(6) by simp
  have d': "ObjectName (s_heap (snd ?Y) 0) \<noteq> ob_ObjectName (ev_object ?w)"
    using y(2) hw(6) by simp
  have r: "?R = (fst ?R, fst (snd ?R), snd (snd ?R))" and q: "?Q = (fst ?Q, fst (snd ?Q), snd (snd ?Q))"
    by simp_all
  from duplicate_arbitration [OF hv(1) ent hv(2,3,4,5) d r] x(3) x(2) hv(6,7) ok
  have a: "fst ?R = Some 1 \<and> en_duplicate (s_heap (snd (snd ?R)) 1)
            \<and> \<not> en_modified (s_heap (snd (snd ?R)) 1)
            \<and> filter isStatusUpdate (s_calls (snd (snd ?R)))
               = [Call_UpdateStatus ''e2'' STATE_ERROR (AlreadyBusyForEntry ''www.example.com'' ''e1'')]"
    by simp
  from duplicate_arbitration [OF hw(1) ent' hw(2,3,4,5) d' q] y(3) y(4) hw(7)
  have b: "en_duplicate (s_heap (snd (snd ?Q)) 0)
            \<and> s_dnsnames (snd (snd ?Q)) ''www.example.com'' = Some 1
            \<and> Call_triggerKey (DNSEntryKind, ''e1'') \<in> set (s_calls (snd (snd ?Q)))"
    by simp
  from a b show ?thesis by simp
qed

text \<open>
  Claim C1 as stated fails when the status handed in is not succeeded: \<open>e2\<close> is marked
  duplicate behind the earlier \<open>e1\<close>, and the only call is that of the finalizer; the
  status of \<open>e2\<close> is not set to error.
\<close>

theorem duplicate_without_status_counterexample:
  "\<not> IsSucceeded (Delay (ApiError ''invalid''))
   \<and> s_dnsnames sample_state ''www.example.com'' = Some 0
   \<and> Before (s_heap sample_state 0)
         (s_heap (snd (snd (AddEntryVersion sample_deps sample_env sample_state
            (sample_version (sample_object ''e2'' DNSEntryKind 20)) (Delay (ApiError ''invalid''))))) 1)
   \<and> en_duplicate (s_heap (snd (snd (AddEntryVersion sample_deps sample_env sample_state
          (sample_version (sample_object ''e2'' DNSEntryKind 20)) (Delay (ApiError ''invalid''))))) 1)
   \<and> s_calls (snd (snd (AddEntryVersion sample_deps sample_env sample_state
          (sample_version (sample_object ''e2'' DNSEntryKind 20)) (Delay (ApiError ''invalid'')))))
       = [Call_SetFinalizer ''e2'']"
  by (simp add: AddEntryVersion_def AddEntryVersion_install_def AddEntryVersion_arbitrate_def
        IsSucceeded_def Delay_def emit_def Let_def sample_eval)

lemma IsActive_cong:
  "s_ownerIds s' = s_ownerIds s \<Longrightarrow> IsActive s' e = IsActive s e"
  by (simp add: IsActive_def)

lemma deleting_result:
  assumes ver: "en_version (s_heap s2 new) = v"
    and valid: "ev_valid v"
  shows "\<exists>s3. s_heap s3 = s_heap s2 \<and> s_zones s3 = s_zones s2 \<and> s_outdated s3 = s_outdated s2
           \<and> s_ownerIds s3 = s_ownerIds s2
           \<and> filter isFinalizerRemoval (s_calls s3) = filter isFinalizerRemoval (s_calls s2)
           \<and> AddEntryVersion_deleting ev s2 v old new =
              (if s_zones s2 (en_activezone (s_heap s2 new)) \<noteq> None then
                 (if ob_HasFinalizer (ev_object v)
                  then (Some new, Succeeded,
                        s3\<lparr>s_outdated := (s_outdated s3)(ob_ObjectName (ev_object v) \<mapsto> new)\<rparr>)
                  else (Some new, Succeeded, s3))
               else if \<not> IsActive s2 (s_heap s2 new) \<or> st_Zone (ob_Status (ev_object v)) = None then
                 (case RemoveFinalizer_result ev (ob_ObjectName (ev_object v)) of
                    None \<Rightarrow> (Some new, Succeeded,
                               emit s3 [Call_RemoveFinalizer (ob_ObjectName (ev_object v))])
                  | Some err \<Rightarrow>
                      (Some new, Delay err,
                       (emit s3 [Call_RemoveFinalizer (ob_ObjectName (ev_object v))])
                         \<lparr>s_entries := AList.update (ob_ObjectName (ev_object v)) new (s_entries s3)\<rparr>))
               else (Some new, Succeeded, s3))"
proof -
  define s3 where "s3 = (case old of
                  None \<Rightarrow> s2
                | Some ol \<Rightarrow> if EntryKind (s_heap s2 ol) \<noteq> DNSLockKind then cleanupEntry s2 ol else s2)"
  have fr: "s_heap s3 = s_heap s2" "s_zones s3 = s_zones s2" "s_outdated s3 = s_outdated s2"
    "s_ownerIds s3 = s_ownerIds s2"
    "filter isFinalizerRemoval (s_calls s3) = filter isFinalizerRemoval (s_calls s2)"
    by (simp_all add: s3_def cleanupEntry_frame split: option.splits)
  have act: "IsActive s3 (s_heap s2 new) = IsActive s2 (s_heap s2 new)"
    using fr(4) by (rule IsActive_cong)
  have nm: "ObjectName (s_heap s2 new) = ob_ObjectName (ev_object v)"
    and ob: "Object_of (s_heap s2 new) = ev_object v"
    using ver by (simp_all add: ObjectName_def Object_of_def)
  have "AddEntryVersion_deleting ev s2 v old new =
              (if s_zones s2 (en_activezone (s_heap s2 new)) \<noteq> None then
                 (if ob_HasFinalizer (ev_object v)
                  then (Some new, Succeeded,
                        s3\<lparr>s_outdated := (s_outdated s3)(ob_ObjectName (ev_object v) \<mapsto> new)\<rparr>)
                  else (Some new, Succeeded, s3))
               else if \<not> IsActive s2 (s_heap s2 new) \<or> st_Zone (ob_Status (ev_object v)) = None then
                 (case RemoveFinalizer_result ev (ob_ObjectName (ev_object v)) of
                    None \<Rightarrow> (Some new, Succeeded,
                               emit s3 [Call_RemoveFinalizer (ob_ObjectName (ev_object v))])
                  | Some err \<Rightarrow>
                      (Some new, Delay err,
                       (emit s3 [Call_RemoveFinalizer (ob_ObjectName (ev_object v))])
                         \<lparr>s_entries := AList.update (ob_ObjectName (ev_object v)) new (s_entries s3)\<rparr>))
               else (Some new, Succeeded, s3))"
    unfolding AddEntryVersion_deleting_def Let_def s3_def [symmetric]
    by (simp add: fr act ver valid nm ob RemoveFinalizer_def DelayOnError_def split: option.splits)
  with fr show ?thesis by blast
qed

text \<open>
  Claim C4, as amended. In \<open>AddEntryVersion\<close> on a deleting, valid version: if the
  active zone of the entry is in the zones map and the object holds the finalizer, the
  entry is added to the outdated set, the result is success and no removal of a
  finalizer is issued. If the active zone is not in the zones map, the removal of the
  finalizer is issued exactly when the entry is not active or the status of the object
  names no zone (the result is then the status of the removal); an active entry whose
  status names a zone keeps its finalizer and the result is success.
\<close>

theorem deleting_version_finalizer:
  assumes del: "ob_IsDeleting (ev_object v)"
    and ent: "AddEntryVersion_entry c s v = (new, s2)"
    and valid: "ev_valid v"
    and res: "AddEntryVersion c ev s v status = (r, st, s')"
  shows "(s_zones s (en_activezone (s_heap s2 new)) \<noteq> None \<and> ob_HasFinalizer (ev_object v) \<longrightarrow>
           r = Some new \<and> st = Succeeded
           \<and> s_outdated s' (ob_ObjectName (ev_object v)) = Some new
           \<and> filter isFinalizerRemoval (s_calls s') = filter isFinalizerRemoval (s_calls s))
       \<and> (s_zones s (en_activezone (s_heap s2 new)) = None \<longrightarrow>
           r = Some new
           \<and> (if \<not> IsActive s (s_heap s2 new) \<or> st_Zone (ob_Status (ev_object v)) = None
              then filter isFinalizerRemoval (s_calls s') =
                     filter isFinalizerRemoval (s_calls s)
                       @ [Call_RemoveFinalizer (ob_ObjectName (ev_object v))]
                   \<and> st = DelayOnError (RemoveFinalizer_result ev (ob_ObjectName (ev_object v)))
              else filter isFinalizerRemoval (s_calls s') = filter isFinalizerRemoval (s_calls s)
                   \<and> st = Succeeded))"
proof -
  let ?old = "map_of (s_entries s) (ob_ObjectName (ev_object v))"
  note ef = entry_frame [OF ent]
  from ef(2) have z: "s_zones s2 = s_zones s" and ow: "s_ownerIds s2 = s_ownerIds s"
    and cl: "s_calls s2 = s_calls s"
    by (simp_all add: sameButHeap_def)
  have act: "IsActive s2 (s_heap s2 new) = IsActive s (s_heap s2 new)"
    using ow by (rule IsActive_cong)
  have run: "AddEntryVersion c ev s v status = AddEntryVersion_deleting ev s2 v ?old new"
    using del ent by (simp add: AddEntryVersion_def Let_def)
  from deleting_result [OF ef(1) valid, of ev ?old] obtain s3 where
    fr: "filter isFinalizerRemoval (s_calls s3) = filter isFinalizerRemoval (s_calls s2)"
    and dr: "AddEntryVersion_deleting ev s2 v ?old new =
              (if s_zones s2 (en_activezone (s_heap s2 new)) \<noteq> None then
                 (if ob_HasFinalizer (ev_object v)
                  then (Some new, Succeeded,
                        s3\<lparr>s_outdated := (s_outdated s3)(ob_ObjectName (ev_object v) \<mapsto> new)\<rparr>)
                  else (Some new, Succeeded, s3))
               else if \<not> IsActive s2 (s_heap s2 new) \<or> st_Zone (ob_Status (ev_object v)) = None then
                 (case RemoveFinalizer_result ev (ob_ObjectName (ev_object v)) of
                    None \<Rightarrow> (Some new, Succeeded,
                               emit s3 [Call_RemoveFinalizer (ob_ObjectName (ev_object v))])
                  | Some err \<Rightarrow>
                      (Some new, Delay err,
                       (emit s3 [Call_RemoveFinalizer (ob_ObjectName (ev_object v))])
                         \<lparr>s_entries := AList.update (ob_ObjectName (ev_object v)) new (s_entries s3)\<rparr>))
               else (Some new, Succeeded, s3))"
    by blast
  have a: "r = Some new \<and> st = Succeeded
           \<and> s_outdated s' (ob_ObjectName (ev_object v)) = Some new
           \<and> filter isFinalizerRemoval (s_calls s') = filter isFinalizerRemoval (s_calls s)"
    if "s_zones s (en_activezone (s_heap s2 new)) \<noteq> None \<and> ob_HasFinalizer (ev_object v)"
    using that run res dr fr z cl by auto
  have b: "r = Some new
           \<and> (if \<not> IsActive s (s_heap s2 new) \<or> st_Zone (ob_Status (ev_object v)) = None
              then filter isFinalizerRemoval (s_calls s') =
                     filter isFinalizerRemoval (s_calls s)
                       @ [Call_RemoveFinalizer (ob_ObjectName (ev_object v))]
                   \<and> st = DelayOnError (RemoveFinalizer_result ev (ob_ObjectName (ev_object v)))
              else filter isFinalizerRemoval (s_calls s') = filter isFinalizerRemoval (s_calls s)
                   \<and> st = Succeeded)"
    if zn: "s_zones s (en_activezone (s_heap s2 new)) = None"
  proof (cases "\<not> IsActive s (s_heap s2 new) \<or> st_Zone (ob_Status (ev_object v)) = None")
    case True
    with zn run res dr fr z cl act show ?thesis
      by (cases "RemoveFinalizer_result ev (ob_ObjectName (ev_object v))")
         (auto simp: emit_def isFinalizerRemoval_def DelayOnError_def)
  next
    case False
    with zn run res dr fr z cl act show ?thesis
      by auto
  qed
  from a b show ?thesis by blast
qed

text \<open>
  The deleting \<open>e1\<close> with its finalizer and its zone \<open>z1\<close> known is added to the
  outdated set. With no zones and no active owner, the removal of its finalizer is
  issued.
\<close>

theorem deleting_version_finalizer_witness:
  "fst (snd (AddEntryVersion sample_deps sample_env sample_state
       (sample_version ((sample_object ''e1'' DNSEntryKind 10)\<lparr>ob_IsDeleting := True\<rparr>))
       Succeeded)) = Succeeded
   \<and> s_outdated (snd (snd (AddEntryVersion sample_deps sample_env sample_state
       (sample_version ((sample_object ''e1'' DNSEntryKind 10)\<lparr>ob_IsDeleting := True\<rparr>))
       Succeeded))) ''e1'' = Some 0
   \<and> filter isFinalizerRemoval (s_calls (snd (snd (AddEntryVersion sample_deps sample_env
       sample_state
       (sample_version ((sample_object ''e1'' DNSEntryKind 10)\<lparr>ob_IsDeleting := True\<rparr>))
       Succeeded)))) = []
   \<and> filter isFinalizerRemoval (s_calls (snd (snd (AddEntryVersion sample_deps sample_env
       (sample_state\<lparr>s_zones := Map.empty, s_ownerIds := []\<rparr>)
       (sample_version ((sample_object ''e1'' DNSEntryKind 10)\<lparr>ob_IsDeleting := True\<rparr>))
       Succeeded)))) = [Call_RemoveFinalizer ''e1'']"
proof -
  let ?v = "sample_version ((sample_object ''e1'' DNSEntryKind 10)\<lparr>ob_IsDeleting := True\<rparr>)"
  let ?s = "sample_state\<lparr>s_zones := Map.empty, s_ownerIds := []\<rparr>"
  let ?X = "AddEntryVersion_entry sample_deps sample_state ?v"
  let ?Y = "AddEntryVersion_entry sample_deps ?s ?v"
  let ?R = "AddEntryVersion sample_deps sample_env sample_state ?v Succeeded"
  let ?Q = "AddEntryVersion sample_deps sample_env ?s ?v Succeeded"
  have x: "fst ?X = 0" "s_zones sample_state (en_activezone (s_heap (snd ?X) 0)) \<noteq> None"
    by (simp_all add: sample_eval)
  have y: "fst ?Y = 0" "s_zones ?s (en_activezone (s_heap (snd ?Y) 0)) = None"
    "\<not> IsActive ?s (s_heap (snd ?Y) 0)"
    by (simp_all add: sample_eval)
  have ent: "?X = (0, snd ?X)" and ent': "?Y = (0, snd ?Y)"
    using x(1) y(1) by (simp_all add: prod_eq_iff)
  have hv: "ob_IsDeleting (ev_object ?v)" "ev_valid ?v" "ob_HasFinalizer (ev_object ?v)"
    "ob_ObjectName (ev_object ?v) = ''e1''" "s_calls sample_state = []" "s_calls ?s = []"
    by (simp_all add: sample_eval)
  have r: "?R = (fst ?R, fst (snd ?R), snd (snd ?R))" and q: "?Q = (fst ?Q, fst (snd ?Q), snd (snd ?Q))"
    by simp_all
  from deleting_version_finalizer [OF hv(1) ent hv(2) r] x(2) hv(3,4,5)
  have a: "fst (snd ?R) = Succeeded \<and> s_outdated (snd (snd ?R)) ''e1'' = Some 0
           \<and> filter isFinalizerRemoval (s_calls (snd (snd ?R))) = []"
    by simp
  from deleting_version_finalizer [OF hv(1) ent' hv(2) q] y(2,3) hv(4,6)
  have b: "filter isFinalizerRemoval (s_calls (snd (snd ?Q))) = [Call_RemoveFinalizer ''e1'']"
    by simp
  from a b show ?thesis by simp
qed

text \<open>
  Claim C4 as stated fails for an active entry whose status names a zone: the zone
  \<open>z1\<close> of the deleting, valid \<open>e1\<close> is not in the zones map, and no removal of the
  finalizer is issued.
\<close>

theorem zone_gone_finalizer_kept_counterexample:
  "ev_valid (sample_version ((sample_object ''e1'' DNSEntryKind 10)\<lparr>ob_IsDeleting := True\<rparr>))
   \<and> s_zones (sample_state\<lparr>s_zones := Map.empty\<rparr>)
        (en_activezone (s_heap (snd (snd (AddEntryVersion sample_deps sample_env
           (sample_state\<lparr>s_zones := Map.empty\<rparr>)
           (sample_version ((sample_object ''e1'' DNSEntryKind 10)\<lparr>ob_IsDeleting := True\<rparr>))
           Succeeded))) 0)) = None
   \<and> fst (AddEntryVersion sample_deps sample_env (sample_state\<lparr>s_zones := Map.empty\<rparr>)
       (sample_version ((sample_object ''e1'' DNSEntryKind 10)\<lparr>ob_IsDeleting := True\<rparr>))
       Succeeded) = Some 0
   \<and> s_calls (snd (snd (AddEntryVersion sample_deps sample_env
       (sample_state\<lparr>s_zones := Map.empty\<rparr>)
       (sample_version ((sample_object ''e1'' DNSEntryKind 10)\<lparr>ob_IsDeleting := True\<rparr>))
       Succeeded))) = []"
  by (simp add: AddEntryVersion_def AddEntryVersion_deleting_def cleanupEntry_def
        Entries_Delete_def AList.delete_eq RemoveFinalizer_def DelayOnError_def emit_def Let_def
        sample_eval)

section \<open>Handling an update\<close>

lemma deleting_heap:
  "AddEntryVersion_deleting ev s2 v old new = (r, st, s') \<Longrightarrow> r = Some new \<and> s_heap s' = s_heap s2"
proof -
  assume run: "AddEntryVersion_deleting ev s2 v old new = (r, st, s')"
  define s3 where "s3 = (case old of
                  None \<Rightarrow> s2
                | Some ol \<Rightarrow> if EntryKind (s_heap s2 ol) \<noteq> DNSLockKind then cleanupEntry s2 ol else s2)"
  have fr: "s_heap s3 = s_heap s2"
    by (simp add: s3_def cleanupEntry_frame split: option.splits)
  from run fr show ?thesis
    unfolding AddEntryVersion_deleting_def Let_def s3_def [symmetric]
    by (auto simp: RemoveFinalizer_def emit_def split: if_splits option.splits)
qed

lemma install_heap:
  "(AddEntryVersion_install ev s2 v old new = Inl (err, s3) \<longrightarrow> s_heap s3 = s_heap s2)
   \<and> (AddEntryVersion_install ev s2 v old new = Inr s5 \<longrightarrow> s_heap s5 = s_heap s2)"
  by (auto simp: AddEntryVersion_install_def Let_def emit_def cleanupEntry_frame
        split: if_splits option.splits)

lemma arbitrate_version:
  "AddEntryVersion_arbitrate ev s v new status = (r, st, s')
     \<Longrightarrow> r = Some new \<and> en_version (s_heap s' new) = en_version (s_heap s new)"
  by (auto simp: AddEntryVersion_arbitrate_def Let_def emit_def split: if_splits option.splits)

lemma AddEntryVersion_version:
  assumes "AddEntryVersion c ev s v status = (Some n, st, s')"
  shows "en_version (s_heap s' n) = v"
proof -
  obtain new s2 where ent: "AddEntryVersion_entry c s v = (new, s2)"
    by (cases "AddEntryVersion_entry c s v") auto
  note ver = entry_frame(1) [OF ent]
  let ?old = "map_of (s_entries s) (ob_ObjectName (ev_object v))"
  show ?thesis
  proof (cases "ob_IsDeleting (ev_object v)")
    case True
    with assms ent have "AddEntryVersion_deleting ev s2 v ?old new = (Some n, st, s')"
      by (simp add: AddEntryVersion_def Let_def)
    from deleting_heap [OF this] ver show ?thesis by simp
  next
    case False
    show ?thesis
    proof (cases "AddEntryVersion_install ev s2 v ?old new")
      case (Inl a)
      obtain err s3 where a: "a = (err, s3)" by (cases a) auto
      with Inl install_heap [of ev s2 v ?old new err s3] have "s_heap s3 = s_heap s2" by simp
      with assms ent False Inl a ver show ?thesis
        by (simp add: AddEntryVersion_def Let_def)
    next
      case (Inr s5)
      with install_heap [of ev s2 v ?old new _ _ s5] have hp: "s_heap s5 = s_heap s2" by simp
      from assms ent False Inr have man: "IsManaging s5 v"
        by (auto simp: AddEntryVersion_def Let_def split: if_splits)
      with assms ent False Inr have "AddEntryVersion_arbitrate ev s5 v new status = (Some n, st, s')"
        by (simp add: AddEntryVersion_def Let_def)
      from arbitrate_version [OF this] hp ver show ?thesis by simp
    qed
  qed
qed

lemma HandleUpdateEntry_None:
  assumes "AddEntryVersion c ev s (fst (HandleUpdateEntry_version c w1 s op object))
             (snd (HandleUpdateEntry_version c w1 s op object)) = (None, st1, s1)"
  shows "HandleUpdateEntry c ev a w1 w2 s op object =
           (if \<not> ob_IsDeleting object then
              (if \<not> Match (fst (EntryPremise w2 object)) (fst (EntryPremise w1 object))
               then Inr (Repeat, s1, Some (fst (EntryPremise w2 object)))
               else Inr (st1, s1, Some (fst (EntryPremise w2 object))))
            else Inr (st1, s1, None))"
  using assms by (simp add: HandleUpdateEntry_def Let_def)

lemma HandleUpdateEntry_entry:
  assumes "AddEntryVersion c ev s (fst (HandleUpdateEntry_version c w1 s op object))
             (snd (HandleUpdateEntry_version c w1 s op object)) = (Some n, st1, s1)"
    and "ob_Kind (ev_object (fst (HandleUpdateEntry_version c w1 s op object))) \<noteq> DNSLockKind"
  shows "\<exists>st2 s2. HandleUpdateEntry c ev a w1 w2 s op object =
           (if \<not> ob_IsDeleting object then
              (if \<not> Match (fst (EntryPremise w2 object)) (fst (EntryPremise w1 object))
               then Inr (Repeat, s2, Some (fst (EntryPremise w2 object)))
               else Inr (st2, s2, Some (fst (EntryPremise w2 object))))
            else Inr (st2, s2, None))"
proof -
  from assms(1) have "en_version (s_heap s1 n) = fst (HandleUpdateEntry_version c w1 s op object)"
    by (rule AddEntryVersion_version)
  with assms(2) have "EntryKind (s_heap s1 n) \<noteq> DNSLockKind"
    by (simp add: EntryKind_def Object_of_def)
  with assms(1) show ?thesis
    by (simp add: HandleUpdateEntry_def Let_def)
qed

lemma HandleUpdateEntry_lock:
  assumes "AddEntryVersion c ev s (fst (HandleUpdateEntry_version c w1 s op object))
             (snd (HandleUpdateEntry_version c w1 s op object)) = (Some n, st1, s1)"
    and "ob_Kind (ev_object (fst (HandleUpdateEntry_version c w1 s op object))) = DNSLockKind"
  shows "HandleUpdateEntry c ev a w1 w2 s op object \<noteq> Inr (st, s', Some check)"
proof -
  from assms(1) have "en_version (s_heap s1 n) = fst (HandleUpdateEntry_version c w1 s op object)"
    by (rule AddEntryVersion_version)
  with assms(2) have "EntryKind (s_heap s1 n) = DNSLockKind"
    by (simp add: EntryKind_def Object_of_def)
  with assms(1) show ?thesis
    by (auto simp: HandleUpdateEntry_def Let_def split: sum.splits prod.splits)
qed

text \<open>
  Claim C5. For every event that \<open>HandleUpdateEntry\<close> processes: if the premise that
  it reads again after \<open>AddEntryVersion\<close> does not match the premise read before it,
  the handler returns the status \<open>Repeat\<close>. The premise read again is that of the
  providers as they are then, and the handler reads it exactly when the object is not
  deleting and the entry version is no lock or \<open>AddEntryVersion\<close> returns no entry:
  then it returns, with that reading made.
\<close>

theorem premise_mismatch_repeats:
  "(HandleUpdateEntry c ev a w1 w2 s op object = Inr (st, s', Some check)
      \<and> \<not> Match check (fst (EntryPremise w1 object))
    \<longrightarrow> st = Repeat)
   \<and> (HandleUpdateEntry c ev a w1 w2 s op object = Inr (st, s', Some check)
    \<longrightarrow> check = fst (EntryPremise w2 object) \<and> \<not> ob_IsDeleting object
        \<and> (ob_Kind (ev_object (fst (HandleUpdateEntry_version c w1 s op object))) \<noteq> DNSLockKind
             \<or> fst (AddEntryVersion c ev s (fst (HandleUpdateEntry_version c w1 s op object))
                      (snd (HandleUpdateEntry_version c w1 s op object))) = None))
   \<and> (\<not> ob_IsDeleting object
      \<and> (ob_Kind (ev_object (fst (HandleUpdateEntry_version c w1 s op object))) \<noteq> DNSLockKind
           \<or> fst (AddEntryVersion c ev s (fst (HandleUpdateEntry_version c w1 s op object))
                    (snd (HandleUpdateEntry_version c w1 s op object))) = None)
    \<longrightarrow> (\<exists>st2 s2. HandleUpdateEntry c ev a w1 w2 s op object
                      = Inr (st2, s2, Some (fst (EntryPremise w2 object)))))"
proof -
  let ?v = "fst (HandleUpdateEntry_version c w1 s op object)"
  let ?st = "snd (HandleUpdateEntry_version c w1 s op object)"
  obtain r st1 s1 where add: "AddEntryVersion c ev s ?v ?st = (r, st1, s1)"
    by (cases "AddEntryVersion c ev s ?v ?st") auto
  show ?thesis
  proof (cases r)
    case None
    with add have "AddEntryVersion c ev s ?v ?st = (None, st1, s1)" by simp
    from HandleUpdateEntry_None [OF this, of a w2] add None show ?thesis
      by (auto split: if_splits)
  next
    case (Some n)
    with add have run: "AddEntryVersion c ev s ?v ?st = (Some n, st1, s1)" by simp
    show ?thesis
    proof (cases "ob_Kind (ev_object ?v) = DNSLockKind")
      case True
      from HandleUpdateEntry_lock [OF run True, of a w2] run True show ?thesis
        by simp
    next
      case False
      from HandleUpdateEntry_entry [OF run False, of a w2] obtain st2 s2 where
        "HandleUpdateEntry c ev a w1 w2 s op object =
           (if \<not> ob_IsDeleting object then
              (if \<not> Match (fst (EntryPremise w2 object)) (fst (EntryPremise w1 object))
               then Inr (Repeat, s2, Some (fst (EntryPremise w2 object)))
               else Inr (st2, s2, Some (fst (EntryPremise w2 object))))
            else Inr (st2, s2, None))"
        by blast
      with False show ?thesis
        by (auto split: if_splits)
    qed
  qed
qed

text \<open>
  The zone of the entry \<open>e2\<close> is \<open>z1\<close> at the first reading and \<open>z2\<close> at the second:
  the handler returns \<open>Repeat\<close>.
\<close>

theorem premise_mismatch_repeats_witness:
  "map_sum id fst (HandleUpdateEntry sample_deps sample_env Arch64 (sample_providers ''z1'')
          (sample_providers ''z2'') sample_state ''reconcile''
          (sample_object ''e2'' DNSEntryKind 20)) = Inr Repeat"
proof -
  let ?o = "sample_object ''e2'' DNSEntryKind 20"
  let ?w1 = "sample_providers ''z1''"
  let ?w2 = "sample_providers ''z2''"
  let ?H = "HandleUpdateEntry sample_deps sample_env Arch64 ?w1 ?w2 sample_state ''reconcile'' ?o"
  have nd: "\<not> ob_IsDeleting ?o" by (simp add: sample_object_def)
  have k: "ob_Kind (ev_object (fst (HandleUpdateEntry_version sample_deps ?w1 sample_state
             ''reconcile'' ?o))) \<noteq> DNSLockKind"
    by (simp add: HandleUpdateEntry_version_def sample_deps_def sample_object_def Let_def)
  have mm: "\<not> Match (fst (EntryPremise ?w2 ?o)) (fst (EntryPremise ?w1 ?o))"
    by (simp add: EntryPremise_def withZone_def Match_def sample_providers_def sample_zone_def
          Let_def)
  from premise_mismatch_repeats [where object = ?o and ?w1.0 = ?w1 and ?w2.0 = ?w2
      and c = sample_deps and s = sample_state and op = "''reconcile''" and ev = sample_env
      and a = Arch64] nd k
  obtain st2 s2 where r: "?H = Inr (st2, s2, Some (fst (EntryPremise ?w2 ?o)))"
    by blast
  from premise_mismatch_repeats [where object = ?o and ?w1.0 = ?w1 and ?w2.0 = ?w2
      and c = sample_deps and s = sample_state and op = "''reconcile''" and ev = sample_env
      and a = Arch64 and st = st2 and s' = s2 and check = "fst (EntryPremise ?w2 ?o)"] r mm
  have "st2 = Repeat" by blast
  with r show ?thesis by simp
qed

text \<open>
  For the lock \<open>e1\<close> the zone is \<open>z1\<close> at the first reading and would be \<open>z2\<close> at a
  second one, but the handler makes none: it returns the status of
  \<open>checkAndUpdateLock\<close>, success.
\<close>

lemma HandleUpdateEntry_lock_sample:
  "map_sum id fst (HandleUpdateEntry sample_deps sample_env Arch64 (sample_providers ''z1'')
          (sample_providers ''z2'') sample_locked ''reconcile''
          (sample_object ''e1'' DNSLockKind 10)) = Inr Succeeded
   \<and> map_sum id (snd \<circ> snd) (HandleUpdateEntry sample_deps sample_env Arch64
          (sample_providers ''z1'') (sample_providers ''z2'') sample_locked ''reconcile''
          (sample_object ''e1'' DNSLockKind 10)) = Inr None"
proof -
  let ?o = "sample_object ''e1'' DNSLockKind 10"
  let ?w1 = "sample_providers ''z1''"
  let ?s = "sample_locked"
  let ?p = "fst (EntryPremise ?w1 ?o)"
  let ?V = "HandleUpdateEntry_version sample_deps ?w1 ?s ''reconcile'' ?o"
  let ?v = "(sample_version ?o)\<lparr>ev_status := sample_status\<lparr>st_ProviderType := Some ''aws'',
                  st_Zone := Some ''z1''\<rparr>\<rparr>"
  have p: "?p = sample_premise"
    by (simp add: EntryPremise_def withZone_def sample_providers_def sample_zone_def
          sample_premise_def Let_def)
  have V: "?V = (?v, Succeeded)"
    by (simp add: HandleUpdateEntry_version_def p EntryPremise_def withZone_def
          sample_providers_def sample_zone_def sample_premise_def Let_def sample_deps_def
          sample_version_def sample_object_def DelayOnError_def)
  have a: "\<not> ob_IsDeleting ?o" by (simp add: sample_object_def)
  obtain r st s1 where add: "AddEntryVersion sample_deps sample_env ?s ?v Succeeded = (r, st, s1)"
    by (metis prod_cases3)
  from add have r: "r = Some 0"
    by (simp add: AddEntryVersion_def AddEntryVersion_install_def AddEntryVersion_arbitrate_def
          emit_def Let_def sample_eval sample_locked_def sample_provider_def split: if_splits)
  from add have h: "s_heap s1 0 = (sample_entry ?o)\<lparr>en_version := ?v\<rparr>"
    and z: "s_zones s1 = [''z1'' \<mapsto> sample_zone]"
    by (auto simp add: AddEntryVersion_def AddEntryVersion_install_def AddEntryVersion_arbitrate_def
          emit_def Let_def sample_eval sample_locked_def sample_provider_def split: if_splits)
  have "\<exists>e' calls. checkAndUpdateLock sample_deps sample_env Arch64 (s_zones s1) (s_heap s1 0)
            sample_premise = Inr (Succeeded, e', calls)"
    unfolding h z
    by (simp add: checkAndUpdateLock_def writeLock_def ModifyStatus_def lockWrittenModifier_def
          setObject_def Let_def sample_eval sample_premise_def sample_provider_def sample_zone_def)
  then obtain e' calls where lk: "checkAndUpdateLock sample_deps sample_env Arch64 (s_zones s1)
      (s_heap s1 0) sample_premise = Inr (Succeeded, e', calls)"
    by blast
  have k: "EntryKind (s_heap s1 0) = DNSLockKind"
    unfolding h by (simp add: sample_eval)
  have "HandleUpdateEntry sample_deps sample_env Arch64 ?w1 (sample_providers ''z2'') ?s
          ''reconcile'' ?o
        = Inr (Succeeded, emit (s1\<lparr>s_heap := (s_heap s1)(0 := e')\<rparr>) calls, None)"
    unfolding HandleUpdateEntry_def p V
    using a add r lk k by (simp add: Let_def)
  then show ?thesis
    by simp
qed

end
